theory Spec2Isabelle
  imports Complex_Main
begin

section \<open>Tables of the gift tracker\<close>

text \<open>
  The program keeps its ledger in a pandas DataFrame. A frame is modelled as
  its row labels (\<open>index\<close>) and its columns in order, each a name with one
  cell per row. Frames built by the program carry unique column names and
  columns as long as the index.

  A cell is a scalar as pandas stores it: a null (None / NaN), a bool, an
  integer, a float or a str. A float is a rational or an infinity; NaN is
  the null, and binary rounding is left out of the model.
\<close>

datatype fl = Fin rat | PInf | NInf

datatype cell = NA | B bool | I int | F fl | S string

datatype num = NInt int | NFlt fl

datatype error =
    KeyError string
  | IntCastingNaNError
  | TypeError
  | ParserError
  | EmptyDataError
  | ReError
  | OutsideModel

record dataframe =
  index :: "nat list"
  data :: "(string \<times> cell list) list"

text \<open>
  \<open>OutsideModel\<close> is no Python exception: a modelled library function
  returns it on an input beyond the part of the library that is modelled, and
  nothing is claimed about the program there.

  What the runtime supplies: the clock (\<open>datetime.now().year\<close>,
  \<open>date.today().isoformat()\<close>), the numeric-literal reader pandas applies
  to a str inside \<open>pd.to_numeric\<close>, Python's formatting of a float, and the
  CSV reader and writer of pandas (\<open>pd.read_csv\<close>, \<open>DataFrame.to_csv\<close> with
  \<open>index=False\<close>) over byte strings.
\<close>

record env =
  now_year :: int
  today_iso :: string
  str_to_num :: "string \<Rightarrow> num option"
  float_str :: "fl \<Rightarrow> string"
  read_csv :: "string \<Rightarrow> error + dataframe"
  to_csv :: "dataframe \<Rightarrow> string"

definition COLUMNS :: "string list" where
  "COLUMNS = [''date'', ''year'', ''recipient'', ''occasion'', ''idea'',
              ''budget'', ''purchased'', ''purchased_cost'']"

subsection \<open>Results that may raise\<close>

definition seq :: "error + 'a \<Rightarrow> ('a \<Rightarrow> error + 'b) \<Rightarrow> error + 'b" where
  "seq m f = (case m of Inl e \<Rightarrow> Inl e | Inr x \<Rightarrow> f x)"

fun map_result :: "('a \<Rightarrow> error + 'b) \<Rightarrow> 'a list \<Rightarrow> error + 'b list" where
  "map_result f [] = Inr []"
| "map_result f (x # xs) =
     (case f x of
        Inl e \<Rightarrow> Inl e
      | Inr y \<Rightarrow> (case map_result f xs of Inl e \<Rightarrow> Inl e | Inr ys \<Rightarrow> Inr (y # ys)))"

subsection \<open>Frame primitives\<close>

definition columns :: "dataframe \<Rightarrow> string list" where
  "columns df = map fst (data df)"

text \<open>\<open>df[c]\<close>: the column named \<open>c\<close>, KeyError when there is none.\<close>

definition getitem :: "dataframe \<Rightarrow> string \<Rightarrow> error + cell list" where
  "getitem df c = (case map_of (data df) c of None \<Rightarrow> Inl (KeyError c) | Some v \<Rightarrow> Inr v)"

text \<open>\<open>df[c] = values\<close>: replaces the column in place, or appends a new last column.\<close>

definition setitem :: "dataframe \<Rightarrow> string \<Rightarrow> cell list \<Rightarrow> dataframe" where
  "setitem df c v =
     (if c \<in> set (columns df)
      then df\<lparr>data := map (\<lambda>(n, old). if n = c then (n, v) else (n, old)) (data df)\<rparr>
      else df\<lparr>data := data df @ [(c, v)]\<rparr>)"

text \<open>\<open>df[c] = scalar\<close>: the scalar is broadcast over the rows.\<close>

definition setitem_scalar :: "dataframe \<Rightarrow> string \<Rightarrow> cell \<Rightarrow> dataframe" where
  "setitem_scalar df c x = setitem df c (replicate (length (index df)) x)"

text \<open>\<open>df[names].copy()\<close>: the named columns, in the order asked for.\<close>

definition select :: "dataframe \<Rightarrow> string list \<Rightarrow> error + dataframe" where
  "select df names =
     seq (map_result (\<lambda>c. seq (getitem df c) (\<lambda>v. Inr (c, v))) names)
         (\<lambda>cs. Inr (df\<lparr>data := cs\<rparr>))"

subsection \<open>Cell coercions\<close>

text \<open>\<open>fillna(x)\<close> on one cell.\<close>

definition fillna :: "cell \<Rightarrow> cell \<Rightarrow> cell" where
  "fillna x c = (if c = NA then x else c)"

fun digit_char :: "nat \<Rightarrow> char" where
  "digit_char n = char_of (48 + n)"

fun show_nat :: "nat \<Rightarrow> string" where
  "show_nat n = (if n < 10 then [digit_char n] else show_nat (n div 10) @ [digit_char (n mod 10)])"

definition show_int :: "int \<Rightarrow> string" where
  "show_int i = (if i < 0 then CHR ''-'' # show_nat (nat (- i)) else show_nat (nat i))"

text \<open>\<open>astype(str)\<close> on one cell: Python's \<open>str\<close> of the value.\<close>

fun astype_str :: "env \<Rightarrow> cell \<Rightarrow> cell" where
  "astype_str e NA = S ''nan''"
| "astype_str e (B b) = S (if b then ''True'' else ''False'')"
| "astype_str e (I i) = S (show_int i)"
| "astype_str e (F f) = S (float_str e f)"
| "astype_str e (S s) = S s"

text \<open>
  \<open>pd.to_numeric(..., errors="coerce")\<close> on one cell: None stands for the NaN
  that replaces whatever does not read as a number.
\<close>

fun to_numeric :: "env \<Rightarrow> cell \<Rightarrow> num option" where
  "to_numeric e NA = None"
| "to_numeric e (B b) = Some (NInt (if b then 1 else 0))"
| "to_numeric e (I i) = Some (NInt i)"
| "to_numeric e (F f) = Some (NFlt f)"
| "to_numeric e (S s) = str_to_num e s"

definition fillna_num :: "num \<Rightarrow> num option \<Rightarrow> num" where
  "fillna_num x v = (case v of None \<Rightarrow> x | Some n \<Rightarrow> n)"

definition trunc :: "rat \<Rightarrow> int" where
  "trunc q = (if 0 \<le> q then \<lfloor>q\<rfloor> else \<lceil>q\<rceil>)"

text \<open>
  \<open>astype(int)\<close>: a float is truncated towards zero; an infinity raises
  IntCastingNaNError; a finite float beyond the range of int64 is cast
  without a check and comes out as the least int64.
\<close>

definition cast_int64 :: "int \<Rightarrow> int" where
  "cast_int64 t =
     (if - 9223372036854775808 \<le> t \<and> t \<le> 9223372036854775807 then t
      else - 9223372036854775808)"

fun astype_int :: "num \<Rightarrow> error + cell" where
  "astype_int (NInt i) = Inr (I i)"
| "astype_int (NFlt (Fin q)) = Inr (I (cast_int64 (trunc q)))"
| "astype_int (NFlt PInf) = Inl IntCastingNaNError"
| "astype_int (NFlt NInf) = Inl IntCastingNaNError"

fun astype_float :: "num \<Rightarrow> cell" where
  "astype_float (NInt i) = F (Fin (of_int i))"
| "astype_float (NFlt f) = F f"

text \<open>\<open>astype(bool)\<close>: the truth value Python gives the cell.\<close>

text \<open>
  (A NaN that reaches \<open>astype(bool)\<close> counts as true; \<open>ensure_df\<close> fills
  the nulls before it converts.)
\<close>

fun truthy :: "cell \<Rightarrow> bool" where
  "truthy NA = True"
| "truthy (B b) = b"
| "truthy (I i) = (i \<noteq> 0)"
| "truthy (F f) = (f \<noteq> Fin 0)"
| "truthy (S s) = (s \<noteq> [])"

definition astype_bool :: "cell \<Rightarrow> cell" where
  "astype_bool c = B (truthy c)"

subsection \<open>ensure_df\<close>

definition default_value :: "env \<Rightarrow> string \<Rightarrow> cell" where
  "default_value e c =
     (if c = ''budget'' \<or> c = ''purchased_cost'' then F (Fin 0)
      else if c = ''purchased'' then B False
      else if c = ''year'' then I (now_year e)
      else if c = ''date'' then S (today_iso e)
      else S [])"

definition add_missing :: "env \<Rightarrow> dataframe \<Rightarrow> dataframe" where
  "add_missing e df0 =
     fold (\<lambda>c df. if c \<notin> set (columns df) then setitem_scalar df c (default_value e c) else df)
          COLUMNS df0"

definition coerce_text :: "env \<Rightarrow> cell \<Rightarrow> cell" where
  "coerce_text e c = astype_str e (fillna (S []) c)"

definition coerce_year :: "env \<Rightarrow> cell \<Rightarrow> error + cell" where
  "coerce_year e c = astype_int (fillna_num (NInt (now_year e)) (to_numeric e c))"

definition coerce_money :: "env \<Rightarrow> cell \<Rightarrow> cell" where
  "coerce_money e c = astype_float (fillna_num (NFlt (Fin 0)) (to_numeric e c))"

definition coerce_purchased :: "cell \<Rightarrow> cell" where
  "coerce_purchased c = astype_bool (fillna (B False) c)"

text \<open>\<open>df[col] = f(df[col])\<close> for a cell-wise \<open>f\<close> that cannot raise.\<close>

definition assign_map :: "(cell \<Rightarrow> cell) \<Rightarrow> string \<Rightarrow> dataframe \<Rightarrow> error + dataframe" where
  "assign_map f c df = seq (getitem df c) (\<lambda>v. Inr (setitem df c (map f v)))"

definition assign_map_result ::
    "(cell \<Rightarrow> error + cell) \<Rightarrow> string \<Rightarrow> dataframe \<Rightarrow> error + dataframe" where
  "assign_map_result f c df =
     seq (getitem df c) (\<lambda>v. seq (map_result f v) (\<lambda>w. Inr (setitem df c w)))"

definition for_cols ::
    "(string \<Rightarrow> dataframe \<Rightarrow> error + dataframe) \<Rightarrow> string list \<Rightarrow> dataframe \<Rightarrow> error + dataframe" where
  "for_cols body names df = fold (\<lambda>c m. seq m (body c)) names (Inr df)"

definition ensure_df :: "env \<Rightarrow> dataframe \<Rightarrow> error + dataframe" where
  "ensure_df e df0 =
     seq (select (add_missing e df0) COLUMNS) (\<lambda>df1.
     seq (assign_map (coerce_text e) ''date'' df1) (\<lambda>df2.
     seq (assign_map_result (coerce_year e) ''year'' df2) (\<lambda>df3.
     seq (for_cols (assign_map (coerce_money e)) [''budget'', ''purchased_cost''] df3) (\<lambda>df4.
     seq (assign_map coerce_purchased ''purchased'' df4) (\<lambda>df5.
     for_cols (assign_map (coerce_text e)) [''recipient'', ''occasion'', ''idea''] df5)))))"

subsection \<open>The columns ensure_df works on\<close>

text \<open>
  The column of the input under a canonical name, or the broadcast default
  when the input has no such column; and the frame \<open>ensure_df\<close> returns,
  given the coerced year column.
\<close>

definition col_or_default :: "env \<Rightarrow> dataframe \<Rightarrow> string \<Rightarrow> cell list" where
  "col_or_default e df c =
     (case map_of (data df) c of
        Some v \<Rightarrow> v
      | None \<Rightarrow> replicate (length (index df)) (default_value e c))"

definition normalized :: "env \<Rightarrow> dataframe \<Rightarrow> cell list \<Rightarrow> dataframe" where
  "normalized e df ys = df\<lparr>data :=
     [(''date'', map (coerce_text e) (col_or_default e df ''date'')),
      (''year'', ys),
      (''recipient'', map (coerce_text e) (col_or_default e df ''recipient'')),
      (''occasion'', map (coerce_text e) (col_or_default e df ''occasion'')),
      (''idea'', map (coerce_text e) (col_or_default e df ''idea'')),
      (''budget'', map (coerce_money e) (col_or_default e df ''budget'')),
      (''purchased'', map coerce_purchased (col_or_default e df ''purchased'')),
      (''purchased_cost'', map (coerce_money e) (col_or_default e df ''purchased_cost''))]\<rparr>"

subsection \<open>Text\<close>

text \<open>
  Text is ASCII in the model. \<open>strip\<close> removes Python's ASCII whitespace from
  both ends, \<open>lower\<close> maps A-Z to a-z, \<open>contains s sub\<close> is Python's
  \<open>sub in s\<close>.
\<close>

definition is_space :: "char \<Rightarrow> bool" where
  "is_space c = (let n = (of_char c :: nat) in (9 \<le> n \<and> n \<le> 13) \<or> (28 \<le> n \<and> n \<le> 32))"

definition strip :: "string \<Rightarrow> string" where
  "strip s = rev (dropWhile is_space (rev (dropWhile is_space s)))"

definition lower_char :: "char \<Rightarrow> char" where
  "lower_char c =
     (let n = (of_char c :: nat) in if 65 \<le> n \<and> n \<le> 90 then char_of (n + 32) else c)"

definition lower :: "string \<Rightarrow> string" where
  "lower s = map lower_char s"

fun starts_with :: "string \<Rightarrow> string \<Rightarrow> bool" where
  "starts_with s [] = True"
| "starts_with [] (p # ps) = False"
| "starts_with (c # s) (p # ps) = (c = p \<and> starts_with s ps)"

fun contains :: "string \<Rightarrow> string \<Rightarrow> bool" where
  "contains [] sub = (sub = [])"
| "contains (c # s) sub = (starts_with (c # s) sub \<or> contains s sub)"

subsection \<open>Regular expressions\<close>

text \<open>
  \<open>Series.str.contains(pat)\<close> compiles \<open>pat\<close> as a regular expression
  (\<open>regex=True\<close> is the default) and searches each str with it. The model
  covers patterns made of ordinary characters, the dot (any character but a
  line feed) and a backslash before a character that is no letter or digit
  (that character, literally); a backslash that ends the pattern is an error
  of \<open>re\<close>. Every other special character leaves the model.
\<close>

datatype atom = Lit char | AnyChar

definition backslash :: char where
  "backslash = CHR 0x5C"

definition re_special :: "char \<Rightarrow> bool" where
  "re_special c \<longleftrightarrow> c \<in> set ''.^$*+?{}[]|()'' \<or> c = backslash"

definition is_alnum :: "char \<Rightarrow> bool" where
  "is_alnum c =
     (let n = (of_char c :: nat)
      in (48 \<le> n \<and> n \<le> 57) \<or> (65 \<le> n \<and> n \<le> 90) \<or> (97 \<le> n \<and> n \<le> 122))"

fun re_compile :: "string \<Rightarrow> error + atom list" where
  "re_compile [] = Inr []"
| "re_compile (c # cs) =
     (if c = backslash then
        (case cs of
           [] \<Rightarrow> Inl ReError
         | d # ds \<Rightarrow>
             if is_alnum d then Inl OutsideModel
             else (case re_compile ds of Inl e \<Rightarrow> Inl e | Inr r \<Rightarrow> Inr (Lit d # r)))
      else if c = CHR ''.'' then
        (case re_compile cs of Inl e \<Rightarrow> Inl e | Inr r \<Rightarrow> Inr (AnyChar # r))
      else if re_special c then Inl OutsideModel
      else (case re_compile cs of Inl e \<Rightarrow> Inl e | Inr r \<Rightarrow> Inr (Lit c # r)))"

fun atom_ok :: "atom \<Rightarrow> char \<Rightarrow> bool" where
  "atom_ok (Lit a) c = (c = a)"
| "atom_ok AnyChar c = (c \<noteq> CHR 0x0A)"

fun match_here :: "atom list \<Rightarrow> string \<Rightarrow> bool" where
  "match_here [] s = True"
| "match_here (a # r) [] = False"
| "match_here (a # r) (c # s) = (atom_ok a c \<and> match_here r s)"

fun re_search :: "atom list \<Rightarrow> string \<Rightarrow> bool" where
  "re_search r [] = match_here r []"
| "re_search r (c # s) = (match_here r (c # s) \<or> re_search r s)"

subsection \<open>Column operations of the filter\<close>

text \<open>\<open>.str.lower()\<close>: a cell that is no str becomes null.\<close>

definition str_lower :: "cell \<Rightarrow> cell" where
  "str_lower c = (case c of S s \<Rightarrow> S (lower s) | _ \<Rightarrow> NA)"

text \<open>\<open>.str.contains(pat, na=False)\<close>: the pattern is compiled once; a null
  cell gives False.\<close>

definition str_contains :: "string \<Rightarrow> cell list \<Rightarrow> error + bool list" where
  "str_contains pat xs =
     seq (re_compile pat)
         (\<lambda>r. Inr (map (\<lambda>c. case c of S s \<Rightarrow> re_search r s | _ \<Rightarrow> False) xs))"

text \<open>\<open>.isin(values)\<close> against a list of ints.\<close>

definition isin :: "int list \<Rightarrow> cell \<Rightarrow> bool" where
  "isin ys c =
     (case c of
        I i \<Rightarrow> i \<in> set ys
      | F (Fin q) \<Rightarrow> q \<in> of_int ` set ys
      | B b \<Rightarrow> (if b then 1 else 0) \<in> set ys
      | _ \<Rightarrow> False)"

text \<open>\<open>~series\<close> taken into a boolean mask: defined on bool cells.\<close>

definition invert :: "cell \<Rightarrow> error + bool" where
  "invert c = (case c of B b \<Rightarrow> Inr (\<not> b) | _ \<Rightarrow> Inl TypeError)"

definition and_mask :: "bool list \<Rightarrow> bool list \<Rightarrow> bool list" where
  "and_mask a b = map (\<lambda>(x, y). x \<and> y) (zip a b)"

definition keep :: "bool list \<Rightarrow> 'a list \<Rightarrow> 'a list" where
  "keep msk xs = map snd (filter fst (zip msk xs))"

text \<open>\<open>df.loc[mask].copy()\<close>: the rows whose mask is True, labels kept.\<close>

definition loc_mask :: "dataframe \<Rightarrow> bool list \<Rightarrow> dataframe" where
  "loc_mask df msk =
     \<lparr>index = keep msk (index df), data = map (\<lambda>(c, v). (c, keep msk v)) (data df)\<rparr>"

subsection \<open>The filter of main\<close>

text \<open>
  The filter widgets: the years picked in the multiselect, the two text
  inputs as typed, and the checkbox.
\<close>

record filter_spec =
  f_year :: "int list"
  rec_text :: string
  occ_text :: string
  show_only_unpurchased :: bool

definition narrow :: "string \<Rightarrow> string \<Rightarrow> dataframe \<Rightarrow> bool list \<Rightarrow> error + bool list" where
  "narrow pat c df msk =
     (if pat \<noteq> []
      then seq (getitem df c) (\<lambda>v.
           seq (str_contains pat (map str_lower v)) (\<lambda>m. Inr (and_mask msk m)))
      else Inr msk)"

definition filter_view :: "dataframe \<Rightarrow> filter_spec \<Rightarrow> error + dataframe" where
  "filter_view df sp =
     (let f_rec = lower (strip (rec_text sp));
          f_occ = lower (strip (occ_text sp))
      in seq (getitem df ''year'') (\<lambda>ys.
         seq (narrow f_rec ''recipient'' df (map (isin (f_year sp)) ys)) (\<lambda>msk1.
         seq (narrow f_occ ''occasion'' df msk1) (\<lambda>msk2.
         seq (if show_only_unpurchased sp
              then seq (getitem df ''purchased'') (\<lambda>v.
                   seq (map_result invert v) (\<lambda>m. Inr (and_mask msk2 m)))
              else Inr msk2) (\<lambda>msk3.
         Inr (loc_mask df msk3))))))"

subsection \<open>Adding a gift\<close>

text \<open>
  What the add form hands over: the date widget's ISO text, the year, the
  three texts as typed, the two amounts and the checkbox.
\<close>

record draft =
  dt_val :: string
  year_val :: int
  recipient :: string
  occasion :: string
  idea :: string
  budget :: rat
  purchased :: bool
  purchased_cost :: rat

definition new_row :: "draft \<Rightarrow> dataframe" where
  "new_row d = \<lparr>index = [0], data =
     [(''date'', [S (dt_val d)]),
      (''year'', [I (year_val d)]),
      (''recipient'', [S (strip (recipient d))]),
      (''occasion'', [S (strip (occasion d))]),
      (''idea'', [S (strip (idea d))]),
      (''budget'', [F (Fin (budget d))]),
      (''purchased'', [B (purchased d)]),
      (''purchased_cost'', [F (Fin (purchased_cost d))])]\<rparr>"

text \<open>
  \<open>pd.concat([a, b], ignore_index=True)\<close>: the columns of \<open>a\<close>, then those
  only \<open>b\<close> has; a frame that lacks a column contributes nulls; the rows are
  relabelled from 0.
\<close>

definition column_or_nulls :: "dataframe \<Rightarrow> string \<Rightarrow> cell list" where
  "column_or_nulls df c =
     (case map_of (data df) c of Some v \<Rightarrow> v | None \<Rightarrow> replicate (length (index df)) NA)"

definition pd_concat :: "dataframe \<Rightarrow> dataframe \<Rightarrow> dataframe" where
  "pd_concat a b =
     \<lparr>index = [0 ..< length (index a) + length (index b)],
      data = map (\<lambda>c. (c, column_or_nulls a c @ column_or_nulls b c))
                 (columns a @ filter (\<lambda>c. c \<notin> set (columns a)) (columns b))\<rparr>"

definition add :: "env \<Rightarrow> dataframe \<Rightarrow> draft \<Rightarrow> error + dataframe" where
  "add e gifts d = ensure_df e (pd_concat gifts (new_row d))"

subsection \<open>Writing the edited rows back\<close>

definition edit_cols :: "string list" where
  "edit_cols = [''purchased'', ''purchased_cost'']"

text \<open>
  \<open>gifts.loc[edited.index, edit_cols] = edited[edit_cols]\<close>: in each of the two
  columns the cell of every row whose label is in \<open>edited.index\<close> takes the
  value the edited frame has under that label; a label the ledger does not
  have is a KeyError.
\<close>

definition loc_assign :: "nat list \<Rightarrow> cell list \<Rightarrow> nat list \<Rightarrow> cell list \<Rightarrow> cell list" where
  "loc_assign labels vals idx col =
     map (\<lambda>(l, old). case map_of (zip labels vals) l of Some v \<Rightarrow> v | None \<Rightarrow> old)
         (zip idx col)"

definition write_column :: "dataframe \<Rightarrow> string \<Rightarrow> dataframe \<Rightarrow> error + dataframe" where
  "write_column edited c g =
     seq (getitem edited c) (\<lambda>new.
     seq (getitem g c) (\<lambda>old.
     Inr (setitem g c (loc_assign (index edited) new (index g) old))))"

definition write_back :: "dataframe \<Rightarrow> dataframe \<Rightarrow> error + dataframe" where
  "write_back gifts edited =
     (if \<not> set (index edited) \<subseteq> set (index gifts) then Inl (KeyError ''index'')
      else for_cols (write_column edited) edit_cols gifts)"

subsection \<open>Import and export\<close>

text \<open>
  The import of \<open>main\<close>: the session ledger is replaced only when both
  \<open>pd.read_csv\<close> and \<open>ensure_df\<close> return; any exception is caught and shown as
  "Upload failed", the ledger staying as it was. The result is the ledger
  after the import and the error shown, if any.
\<close>

definition import_csv :: "env \<Rightarrow> dataframe \<Rightarrow> string \<Rightarrow> dataframe \<times> error option" where
  "import_csv e gifts up =
     (case seq (read_csv e up) (ensure_df e) of
        Inr df \<Rightarrow> (df, None)
      | Inl err \<Rightarrow> (gifts, Some err))"

definition download_csv :: "env \<Rightarrow> dataframe \<Rightarrow> string" where
  "download_csv e df = to_csv e df"

subsection \<open>Rows and the ledger invariant\<close>

text \<open>The cells of the row at position \<open>i\<close>, in column order.\<close>

definition row_at :: "dataframe \<Rightarrow> nat \<Rightarrow> cell list" where
  "row_at df i = map (\<lambda>(c, v). v ! i) (data df)"

definition rows :: "dataframe \<Rightarrow> cell list list" where
  "rows df = map (row_at df) [0 ..< length (index df)]"

text \<open>The declared type of each canonical column.\<close>

definition has_type :: "string \<Rightarrow> cell \<Rightarrow> bool" where
  "has_type c x =
     (if c = ''year'' then (case x of I i \<Rightarrow> True | _ \<Rightarrow> False)
      else if c = ''budget'' \<or> c = ''purchased_cost'' then (case x of F f \<Rightarrow> True | _ \<Rightarrow> False)
      else if c = ''purchased'' then (case x of B b \<Rightarrow> True | _ \<Rightarrow> False)
      else (case x of S s \<Rightarrow> True | _ \<Rightarrow> False))"

definition typed_ledger :: "dataframe \<Rightarrow> bool" where
  "typed_ledger df \<longleftrightarrow>
     columns df = COLUMNS \<and> list_all (\<lambda>(c, v). list_all (has_type c) v) (data df)"

fun nonneg :: "cell \<Rightarrow> bool" where
  "nonneg (F (Fin q)) = (0 \<le> q)"
| "nonneg (F PInf) = True"
| "nonneg (I i) = (0 \<le> i)"
| "nonneg c = False"

definition amounts :: "dataframe \<Rightarrow> cell list" where
  "amounts df = column_or_nulls df ''budget'' @ column_or_nulls df ''purchased_cost''"

definition nonneg_amounts :: "dataframe \<Rightarrow> bool" where
  "nonneg_amounts df = list_all nonneg (amounts df)"

subsection \<open>A sample runtime and sample tables\<close>

text \<open>
  Concrete scenarios are run with a fixed clock, a reader of numbers that
  accepts signed decimal integers, signed decimals with digits on both sides
  of the point and the spellings of infinity, and a float format that
  writes the integral part, a point and the fractional digits (0 when there
  are none), without exponents. The scenarios only use inputs on which these
  agree with pandas and Python.
\<close>

fun digit_val :: "char \<Rightarrow> nat option" where
  "digit_val c =
     (let n = (of_char c :: nat) in if 48 \<le> n \<and> n \<le> 57 then Some (n - 48) else None)"

fun read_nat :: "nat \<Rightarrow> string \<Rightarrow> nat option" where
  "read_nat acc [] = Some acc"
| "read_nat acc (c # cs) =
     (case digit_val c of None \<Rightarrow> None | Some d \<Rightarrow> read_nat (10 * acc + d) cs)"

fun frac_digits :: "nat \<Rightarrow> rat \<Rightarrow> string" where
  "frac_digits 0 r = []"
| "frac_digits (Suc k) r =
     (if r = 0 then []
      else digit_char (nat \<lfloor>r * 10\<rfloor>) # frac_digits k (r * 10 - of_int \<lfloor>r * 10\<rfloor>))"

fun show_fl :: "fl \<Rightarrow> string" where
  "show_fl PInf = ''inf''"
| "show_fl NInf = ''-inf''"
| "show_fl (Fin q) =
     (if q < 0 then ''-'' else []) @ show_nat (nat \<lfloor>\<bar>q\<bar>\<rfloor>) @ ''.''
       @ (let ds = frac_digits 17 (\<bar>q\<bar> - of_int \<lfloor>\<bar>q\<bar>\<rfloor>) in if ds = [] then ''0'' else ds)"

text \<open>
  The sample CSV writer joins the rendered cells with commas, one line per
  row under a header line; it is pandas' writer on tables whose texts hold no
  comma, quote or line break (no field needs quoting). The sample reader
  splits lines and fields, skips blank lines, treats the default null
  markers of pandas as nulls and infers each column as int, float, bool or
  str; a data row longer than the header is a ParserError, an input without
  any line an EmptyDataError. When the first data row has one field more
  than the header, pandas takes the first field of every row as the label of
  the row: the sample reader does so when every row has that length and a
  natural number in front. Quotes, carriage returns, repeated or empty
  column names and other shapes of over-long first rows are beyond it.
\<close>

fun split_on :: "char \<Rightarrow> string \<Rightarrow> string list" where
  "split_on d [] = [[]]"
| "split_on d (c # cs) =
     (if c = d then [] # split_on d cs
      else (case split_on d cs of [] \<Rightarrow> [[c]] | w # ws \<Rightarrow> (c # w) # ws))"

fun join :: "string \<Rightarrow> string list \<Rightarrow> string" where
  "join d [] = []"
| "join d [w] = w"
| "join d (w # v # ws) = w @ d @ join d (v # ws)"

definition na_values :: "string list" where
  "na_values = [[], ''#N/A'', ''#N/A N/A'', ''#NA'', ''-1.#IND'', ''-1.#QNAN'', ''-NaN'',
                ''-nan'', ''1.#IND'', ''1.#QNAN'', ''<NA>'', ''N/A'', ''NA'', ''NULL'', ''NaN'',
                ''None'', ''n/a'', ''nan'', ''null'']"

definition read_int :: "string \<Rightarrow> int option" where
  "read_int s =
     (case s of
        [] \<Rightarrow> None
      | c # cs \<Rightarrow>
          if c = CHR ''-''
          then (if cs = [] then None else map_option (\<lambda>n. - int n) (read_nat 0 cs))
          else if c = CHR ''+''
          then (if cs = [] then None else map_option int (read_nat 0 cs))
          else map_option int (read_nat 0 s))"

definition read_decimal :: "string \<Rightarrow> rat option" where
  "read_decimal s =
     (case split_on CHR ''.'' s of
        [w] \<Rightarrow> map_option of_int (read_int w)
      | [w, f] \<Rightarrow>
          (case (read_int w, if f = [] then None else read_nat 0 f) of
             (Some i, Some n) \<Rightarrow>
               Some (if hd w = CHR ''-''
                     then of_int i - of_nat n / 10 ^ length f
                     else of_int i + of_nat n / 10 ^ length f)
           | _ \<Rightarrow> None)
      | _ \<Rightarrow> None)"

definition read_float :: "string \<Rightarrow> fl option" where
  "read_float s =
     (if lower s \<in> set [''inf'', ''+inf'', ''infinity'', ''+infinity''] then Some PInf
      else if lower s \<in> set [''-inf'', ''-infinity''] then Some NInf
      else map_option Fin (read_decimal s))"

definition read_number :: "string \<Rightarrow> num option" where
  "read_number s =
     (case read_int s of
        Some i \<Rightarrow> Some (NInt i)
      | None \<Rightarrow> map_option NFlt (read_float s))"

definition read_bool :: "string \<Rightarrow> bool option" where
  "read_bool s =
     (if s \<in> set [''True'', ''TRUE'', ''true''] then Some True
      else if s \<in> set [''False'', ''FALSE'', ''false''] then Some False
      else None)"

definition infer_column :: "string list \<Rightarrow> cell list" where
  "infer_column fs =
     (let null = (\<lambda>f. f \<in> set na_values);
          vals = filter (\<lambda>f. \<not> null f) fs
      in if list_all (\<lambda>f. read_int f \<noteq> None) vals then
           (if vals = fs then map (\<lambda>f. I (the (read_int f))) fs
            else map (\<lambda>f. if null f then NA else F (Fin (of_int (the (read_int f))))) fs)
         else if list_all (\<lambda>f. read_float f \<noteq> None) vals then
           map (\<lambda>f. if null f then NA else F (the (read_float f))) fs
         else if list_all (\<lambda>f. read_bool f \<noteq> None) vals then
           map (\<lambda>f. if null f then NA else B (the (read_bool f))) fs
         else map (\<lambda>f. if null f then NA else S f) fs)"

definition table_columns :: "string list \<Rightarrow> string list list \<Rightarrow> (string \<times> cell list) list" where
  "table_columns names recs =
     map (\<lambda>j. (names ! j, infer_column (map (\<lambda>r. if j < length r then r ! j else []) recs)))
         [0 ..< length names]"

definition sample_read_csv :: "string \<Rightarrow> error + dataframe" where
  "sample_read_csv s =
     (if CHR 0x22 \<in> set s \<or> CHR 0x0D \<in> set s then Inl OutsideModel
      else case filter (\<lambda>l. l \<noteq> []) (split_on (CHR 0x0A) s) of
        [] \<Rightarrow> Inl EmptyDataError
      | h # ls \<Rightarrow>
          (let names = split_on CHR '','' h;
               recs = map (split_on CHR '','') ls
           in if \<not> distinct names \<or> [] \<in> set names then Inl OutsideModel
              else if (case recs of [] \<Rightarrow> False | r # _ \<Rightarrow> length names < length r)
                then (if list_all (\<lambda>r. length r = Suc (length names) \<and> hd r \<noteq> []
                                       \<and> read_nat 0 (hd r) \<noteq> None) recs
                      then Inr \<lparr>index = map (\<lambda>r. the (read_nat 0 (hd r))) recs,
                                data = table_columns names (map tl recs)\<rparr>
                      else Inl OutsideModel)
              else if list_ex (\<lambda>r. length names < length r) recs then Inl ParserError
              else Inr \<lparr>index = [0 ..< length recs], data = table_columns names recs\<rparr>))"

fun csv_field :: "cell \<Rightarrow> string" where
  "csv_field NA = []"
| "csv_field (B b) = (if b then ''True'' else ''False'')"
| "csv_field (I i) = show_int i"
| "csv_field (F f) = show_fl f"
| "csv_field (S s) = s"

definition concat_lines :: "string list \<Rightarrow> string" where
  "concat_lines ls = concat (map (\<lambda>l. l @ [CHR 0x0A]) ls)"

definition sample_to_csv :: "dataframe \<Rightarrow> string" where
  "sample_to_csv df =
     concat_lines (join '','' (columns df)
       # map (\<lambda>i. join '','' (map (\<lambda>(c, v). csv_field (v ! i)) (data df)))
             [0 ..< length (index df)])"

definition sample_env :: env where
  "sample_env = \<lparr>now_year = 2026, today_iso = ''2026-11-04'',
                  str_to_num = read_number, float_str = show_fl,
                  read_csv = sample_read_csv, to_csv = sample_to_csv\<rparr>"

text \<open>One row whose purchased cell is the text False, as a CSV column mixing
  words would give.\<close>

definition false_text_table :: dataframe where
  "false_text_table = \<lparr>index = [0], data = [(''purchased'', [S ''False''])]\<rparr>"

definition false_text_result :: dataframe where
  "false_text_result = \<lparr>index = [0], data =
     [(''date'', [S ''2026-11-04'']), (''year'', [I 2026]), (''recipient'', [S []]),
      (''occasion'', [S []]), (''idea'', [S []]), (''budget'', [F (Fin 0)]),
      (''purchased'', [B True]), (''purchased_cost'', [F (Fin 0)])]\<rparr>"

text \<open>Two rows with a date column: one null date, one text that is no date.\<close>

definition odd_dates_table :: dataframe where
  "odd_dates_table = \<lparr>index = [0, 1], data =
     [(''date'', [NA, S ''someday'']), (''recipient'', [S ''Ann'', S ''Bob''])]\<rparr>"

definition odd_dates_result :: dataframe where
  "odd_dates_result = \<lparr>index = [0, 1], data =
     [(''date'', [S [], S ''someday'']), (''year'', [I 2026, I 2026]),
      (''recipient'', [S ''Ann'', S ''Bob'']),
      (''occasion'', [S [], S []]), (''idea'', [S [], S []]),
      (''budget'', [F (Fin 0), F (Fin 0)]),
      (''purchased'', [B False, B False]), (''purchased_cost'', [F (Fin 0), F (Fin 0)])]\<rparr>"

text \<open>Two rows with a text year, a null date, text in a money column and
  assorted purchased cells; the other columns are missing.\<close>

definition messy_table :: dataframe where
  "messy_table = \<lparr>index = [0, 1], data =
     [(''year'', [S ''abc'', I 2024]), (''budget'', [S ''lots'', I 20]),
      (''date'', [S ''2024-12-25'', NA]), (''purchased'', [NA, S ''yes''])]\<rparr>"

definition messy_result :: dataframe where
  "messy_result = \<lparr>index = [0, 1], data =
     [(''date'', [S ''2024-12-25'', S []]), (''year'', [I 2026, I 2024]),
      (''recipient'', [S [], S []]),
      (''occasion'', [S [], S []]), (''idea'', [S [], S []]),
      (''budget'', [F (Fin 0), F (Fin 20)]),
      (''purchased'', [B False, B True]), (''purchased_cost'', [F (Fin 0), F (Fin 0)])]\<rparr>"

text \<open>One row whose year is an infinite float, as the CSV field \<open>inf\<close> reads.\<close>

definition inf_year_table :: dataframe where
  "inf_year_table = \<lparr>index = [0], data = [(''year'', [F PInf])]\<rparr>"

text \<open>The same as an upload: a CSV with the single column year and the
  single field inf.\<close>

definition inf_year_csv :: string where
  "inf_year_csv = ''year'' @ [CHR 0x0A] @ ''inf'' @ [CHR 0x0A]"

text \<open>One row with negative amounts.\<close>

definition negative_table :: dataframe where
  "negative_table = \<lparr>index = [0], data =
     [(''budget'', [I (- 5)]), (''purchased_cost'', [F (Fin (- 2))])]\<rparr>"

definition negative_result :: dataframe where
  "negative_result = \<lparr>index = [0], data =
     [(''date'', [S ''2026-11-04'']), (''year'', [I 2026]), (''recipient'', [S []]),
      (''occasion'', [S []]), (''idea'', [S []]), (''budget'', [F (Fin (- 5))]),
      (''purchased'', [B False]), (''purchased_cost'', [F (Fin (- 2))])]\<rparr>"

text \<open>A filter on the year 2024, the view it gives of the sample ledger, that
  view after an edit of its row, and the ledger after the write-back.\<close>

definition year_2024 :: filter_spec where
  "year_2024 = \<lparr>f_year = [2024], rec_text = [], occ_text = [], show_only_unpurchased = False\<rparr>"

definition view_2024 :: dataframe where
  "view_2024 = \<lparr>index = [1], data =
     [(''date'', [S []]), (''year'', [I 2024]), (''recipient'', [S []]),
      (''occasion'', [S []]), (''idea'', [S []]), (''budget'', [F (Fin 20)]),
      (''purchased'', [B True]), (''purchased_cost'', [F (Fin 0)])]\<rparr>"

definition edited_2024 :: dataframe where
  "edited_2024 = \<lparr>index = [1], data =
     [(''date'', [S []]), (''year'', [I 2024]), (''recipient'', [S []]),
      (''occasion'', [S []]), (''idea'', [S []]), (''budget'', [F (Fin 20)]),
      (''purchased'', [B False]), (''purchased_cost'', [F (Fin 7)])]\<rparr>"

definition after_edit :: dataframe where
  "after_edit = \<lparr>index = [0, 1], data =
     [(''date'', [S ''2024-12-25'', S []]), (''year'', [I 2026, I 2024]),
      (''recipient'', [S [], S []]),
      (''occasion'', [S [], S []]), (''idea'', [S [], S []]),
      (''budget'', [F (Fin 0), F (Fin 20)]),
      (''purchased'', [B False, B False]), (''purchased_cost'', [F (Fin 0), F (Fin 7)])]\<rparr>"

text \<open>A CSV whose second data row has one field too many.\<close>

definition ragged_csv :: string where
  "ragged_csv = ''a,b'' @ [CHR 0x0A] @ ''1,2'' @ [CHR 0x0A] @ ''3,4,5'' @ [CHR 0x0A]"

text \<open>A normalised one-row ledger for the recipient abc, and a search for
  the text a.c in the recipient.\<close>

definition abc_ledger :: dataframe where
  "abc_ledger = \<lparr>index = [0], data =
     [(''date'', [S ''2024-12-25'']), (''year'', [I 2024]), (''recipient'', [S ''abc'']),
      (''occasion'', [S ''Xmas'']), (''idea'', [S ''book'']), (''budget'', [F (Fin 20)]),
      (''purchased'', [B False]), (''purchased_cost'', [F (Fin 0)])]\<rparr>"

definition dot_search :: filter_spec where
  "dot_search = \<lparr>f_year = [2024], rec_text = ''a.c'', occ_text = [], show_only_unpurchased = False\<rparr>"

text \<open>A normalised two-row ledger whose recipients are the texts NA and 007,
  and what importing its export gives.\<close>

definition na_ledger :: dataframe where
  "na_ledger = \<lparr>index = [0, 1], data =
     [(''date'', [S ''2024-12-25'', S ''2024-12-26'']), (''year'', [I 2024, I 2024]),
      (''recipient'', [S ''NA'', S ''007'']),
      (''occasion'', [S ''Xmas'', S ''Xmas'']), (''idea'', [S ''book'', S ''pen'']),
      (''budget'', [F (Fin 20), F (Fin 5)]),
      (''purchased'', [B False, B True]), (''purchased_cost'', [F (Fin 0), F (Fin 4)])]\<rparr>"

definition na_ledger_csv :: string where
  "na_ledger_csv =
     ''date,year,recipient,occasion,idea,budget,purchased,purchased_cost'' @ [CHR 0x0A]
     @ ''2024-12-25,2024,NA,Xmas,book,20.0,False,0.0'' @ [CHR 0x0A]
     @ ''2024-12-26,2024,007,Xmas,pen,5.0,True,4.0'' @ [CHR 0x0A]"

definition na_ledger_reimported :: dataframe where
  "na_ledger_reimported = \<lparr>index = [0, 1], data =
     [(''date'', [S ''2024-12-25'', S ''2024-12-26'']), (''year'', [I 2024, I 2024]),
      (''recipient'', [S [], S ''7.0'']),
      (''occasion'', [S ''Xmas'', S ''Xmas'']), (''idea'', [S ''book'', S ''pen'']),
      (''budget'', [F (Fin 20), F (Fin 5)]),
      (''purchased'', [B False, B True]), (''purchased_cost'', [F (Fin 0), F (Fin 4)])]\<rparr>"

text \<open>
  The frames the program builds: unique column names, every column as long
  as the index.
\<close>

definition wf_frame :: "dataframe \<Rightarrow> bool" where
  "wf_frame df \<longleftrightarrow>
     distinct (columns df) \<and> list_all (\<lambda>(c, v). length v = length (index df)) (data df)"

text \<open>
  The amount cells a table supplies, and a cell that reads as a number below
  zero or not: a cell that does not read as a number will become 0.0.
\<close>

definition present_column :: "dataframe \<Rightarrow> string \<Rightarrow> cell list" where
  "present_column df c = (case map_of (data df) c of None \<Rightarrow> [] | Some v \<Rightarrow> v)"

definition supplied_amounts :: "dataframe \<Rightarrow> cell list" where
  "supplied_amounts df = present_column df ''budget'' @ present_column df ''purchased_cost''"

definition reads_nonneg :: "env \<Rightarrow> cell \<Rightarrow> bool" where
  "reads_nonneg e c = (case to_numeric e c of None \<Rightarrow> True | Some n \<Rightarrow> nonneg (astype_float n))"

text \<open>The invariant of the session ledger: a well-formed frame with the eight
  canonical columns, each of its declared type.\<close>

definition ledger_ok :: "dataframe \<Rightarrow> bool" where
  "ledger_ok df \<longleftrightarrow> wf_frame df \<and> typed_ledger df"

text \<open>A cell that reads as an infinite number, on which \<open>astype(int)\<close> raises.\<close>

definition reads_infinite :: "env \<Rightarrow> cell \<Rightarrow> bool" where
  "reads_infinite e c \<longleftrightarrow>
     to_numeric e c = Some (NFlt PInf) \<or> to_numeric e c = Some (NFlt NInf)"

text \<open>
  A cell that does not coerce to the type of its column: in a numeric column
  one that does not read as a number, in any other column a null (the
  conversions to str and to bool accept every other value).
\<close>

definition fails_coercion :: "env \<Rightarrow> string \<Rightarrow> cell \<Rightarrow> bool" where
  "fails_coercion e c x =
     (if c = ''year'' \<or> c = ''budget'' \<or> c = ''purchased_cost''
      then to_numeric e x = None else x = NA)"

text \<open>What the data editor hands back is typed: bools under purchased, floats
  under purchased_cost.\<close>

definition typed_edits :: "dataframe \<Rightarrow> bool" where
  "typed_edits ed \<longleftrightarrow>
     list_all (has_type ''purchased'') (present_column ed ''purchased'')
     \<and> list_all (has_type ''purchased_cost'') (present_column ed ''purchased_cost'')"

text \<open>The frame the sample reader makes of the exported NA ledger, a draft of
  the add form, and the sample ledger after adding it.\<close>

definition na_parsed :: dataframe where
  "na_parsed = \<lparr>index = [0, 1], data =
     [(''date'', [S ''2024-12-25'', S ''2024-12-26'']), (''year'', [I 2024, I 2024]),
      (''recipient'', [NA, F (Fin 7)]),
      (''occasion'', [S ''Xmas'', S ''Xmas'']), (''idea'', [S ''book'', S ''pen'']),
      (''budget'', [F (Fin 20), F (Fin 5)]),
      (''purchased'', [B False, B True]), (''purchased_cost'', [F (Fin 0), F (Fin 4)])]\<rparr>"

definition bob_draft :: draft where
  "bob_draft = \<lparr>dt_val = ''2026-11-04'', year_val = 2026, recipient = '' Bob '',
                 occasion = ''birthday'', idea = [], budget = 20, purchased = False,
                 purchased_cost = 0\<rparr>"

definition after_add :: dataframe where
  "after_add = \<lparr>index = [0, 1, 2], data =
     [(''date'', [S ''2024-12-25'', S [], S ''2026-11-04'']), (''year'', [I 2026, I 2024, I 2026]),
      (''recipient'', [S [], S [], S ''Bob'']),
      (''occasion'', [S [], S [], S ''birthday'']), (''idea'', [S [], S [], S []]),
      (''budget'', [F (Fin 0), F (Fin 20), F (Fin 20)]),
      (''purchased'', [B False, B True, B False]),
      (''purchased_cost'', [F (Fin 0), F (Fin 0), F (Fin 0)])]\<rparr>"

subsection \<open>The filter as the specification words it\<close>

text \<open>
  A record passes the filter when its year is among the years picked, its
  recipient and its occasion each contain the search text for them (a search
  text that is empty after stripping and lowercasing asks nothing; the
  comparison lowercases the field) and, when only unpurchased gifts are
  asked for, it is not purchased. A row is read in canonical column order:
  year, recipient, occasion and purchased are its cells 1, 2, 3 and 6.
  \<open>plain\<close> says that a search text holds no character special to regular
  expressions.
\<close>

definition plain :: "string \<Rightarrow> bool" where
  "plain p \<longleftrightarrow> list_all (\<lambda>c. \<not> re_special c) p"

definition year_in :: "int list \<Rightarrow> cell \<Rightarrow> bool" where
  "year_in ys c = (case c of I y \<Rightarrow> y \<in> set ys | _ \<Rightarrow> False)"

definition text_has :: "string \<Rightarrow> cell \<Rightarrow> bool" where
  "text_has needle c =
     (case c of S s \<Rightarrow> needle = [] \<or> contains (lower s) needle | _ \<Rightarrow> False)"

definition unpurchased :: "cell \<Rightarrow> bool" where
  "unpurchased c = (case c of B p \<Rightarrow> \<not> p | _ \<Rightarrow> False)"

definition row_matches :: "filter_spec \<Rightarrow> cell list \<Rightarrow> bool" where
  "row_matches sp row \<longleftrightarrow>
     year_in (f_year sp) (row ! 1)
     \<and> text_has (lower (strip (rec_text sp))) (row ! 2)
     \<and> text_has (lower (strip (occ_text sp))) (row ! 3)
     \<and> (show_only_unpurchased sp \<longrightarrow> unpurchased (row ! 6))"

subsection \<open>Sample ledgers for the filter and the edit\<close>

text \<open>
  Five gifts: only the first passes a filter on 2024, recipient ALI, occasion
  MA, unpurchased; the others fail on the year, on purchased, on the
  recipient and on the occasion, in this order.
\<close>

definition alice_ledger :: dataframe where
  "alice_ledger = \<lparr>index = [0, 1, 2, 3, 4], data =
     [(''date'', [S ''2024-12-25'', S ''2023-12-25'', S ''2024-12-25'', S ''2024-12-25'',
                  S ''2024-06-01'']),
      (''year'', [I 2024, I 2023, I 2024, I 2024, I 2024]),
      (''recipient'', [S ''Alice'', S ''Alice'', S ''Natalie'', S ''Bob'', S ''Alicia'']),
      (''occasion'', [S ''Xmas'', S ''Xmas'', S ''Xmas'', S ''Xmas'', S ''Birthday'']),
      (''idea'', [S ''book'', S ''book'', S ''book'', S ''book'', S ''book'']),
      (''budget'', [F (Fin 20), F (Fin 20), F (Fin 20), F (Fin 20), F (Fin 20)]),
      (''purchased'', [B False, B False, B True, B False, B False]),
      (''purchased_cost'', [F (Fin 0), F (Fin 0), F (Fin 15), F (Fin 0), F (Fin 0)])]\<rparr>"

definition shouted_search :: filter_spec where
  "shouted_search =
     \<lparr>f_year = [2024], rec_text = '' ALI'', occ_text = ''MA '', show_only_unpurchased = True\<rparr>"

definition alice_view :: dataframe where
  "alice_view = \<lparr>index = [0], data =
     [(''date'', [S ''2024-12-25'']), (''year'', [I 2024]),
      (''recipient'', [S ''Alice'']),
      (''occasion'', [S ''Xmas'']), (''idea'', [S ''book'']),
      (''budget'', [F (Fin 20)]),
      (''purchased'', [B False]), (''purchased_cost'', [F (Fin 0)])]\<rparr>"

text \<open>A search for the text ali followed by a space, and the view it gives.\<close>

definition trailing_space_search :: filter_spec where
  "trailing_space_search =
     \<lparr>f_year = [2024], rec_text = ''ali '', occ_text = [], show_only_unpurchased = False\<rparr>"

definition ali_view :: dataframe where
  "ali_view = \<lparr>index = [0, 2, 4], data =
     [(''date'', [S ''2024-12-25'', S ''2024-12-25'', S ''2024-06-01'']),
      (''year'', [I 2024, I 2024, I 2024]),
      (''recipient'', [S ''Alice'', S ''Natalie'', S ''Alicia'']),
      (''occasion'', [S ''Xmas'', S ''Xmas'', S ''Birthday'']),
      (''idea'', [S ''book'', S ''book'', S ''book'']),
      (''budget'', [F (Fin 20), F (Fin 20), F (Fin 20)]),
      (''purchased'', [B False, B True, B False]),
      (''purchased_cost'', [F (Fin 0), F (Fin 15), F (Fin 0)])]\<rparr>"

text \<open>
  A CSV whose data rows have one field more than the header, so that the
  first field of each row is its label, and the label 7 is used twice; the
  ledger after importing it; its view for the year 2024; that view with its
  one row marked purchased at a cost of 9; the ledger after the write-back.
\<close>

definition dup_csv :: string where
  "dup_csv =
     ''date,year,recipient,occasion,idea,budget,purchased,purchased_cost'' @ [CHR 0x0A]
     @ ''7,2024-12-25,2024,Ann,Xmas,book,20,False,0'' @ [CHR 0x0A]
     @ ''7,2025-12-25,2025,Bob,Xmas,pen,5,False,0'' @ [CHR 0x0A]"

definition dup_ledger :: dataframe where
  "dup_ledger = \<lparr>index = [7, 7], data =
     [(''date'', [S ''2024-12-25'', S ''2025-12-25'']), (''year'', [I 2024, I 2025]),
      (''recipient'', [S ''Ann'', S ''Bob'']),
      (''occasion'', [S ''Xmas'', S ''Xmas'']), (''idea'', [S ''book'', S ''pen'']),
      (''budget'', [F (Fin 20), F (Fin 5)]),
      (''purchased'', [B False, B False]), (''purchased_cost'', [F (Fin 0), F (Fin 0)])]\<rparr>"

definition dup_view :: dataframe where
  "dup_view = \<lparr>index = [7], data =
     [(''date'', [S ''2024-12-25'']), (''year'', [I 2024]), (''recipient'', [S ''Ann'']),
      (''occasion'', [S ''Xmas'']), (''idea'', [S ''book'']), (''budget'', [F (Fin 20)]),
      (''purchased'', [B False]), (''purchased_cost'', [F (Fin 0)])]\<rparr>"

definition dup_edited :: dataframe where
  "dup_edited = \<lparr>index = [7], data =
     [(''date'', [S ''2024-12-25'']), (''year'', [I 2024]), (''recipient'', [S ''Ann'']),
      (''occasion'', [S ''Xmas'']), (''idea'', [S ''book'']), (''budget'', [F (Fin 20)]),
      (''purchased'', [B True]), (''purchased_cost'', [F (Fin 9)])]\<rparr>"

definition dup_after :: dataframe where
  "dup_after = \<lparr>index = [7, 7], data =
     [(''date'', [S ''2024-12-25'', S ''2025-12-25'']), (''year'', [I 2024, I 2025]),
      (''recipient'', [S ''Ann'', S ''Bob'']),
      (''occasion'', [S ''Xmas'', S ''Xmas'']), (''idea'', [S ''book'', S ''pen'']),
      (''budget'', [F (Fin 20), F (Fin 5)]),
      (''purchased'', [B True, B True]), (''purchased_cost'', [F (Fin 9), F (Fin 9)])]\<rparr>"

text \<open>A purchased column with one cell of every kind, true and false.\<close>

definition truth_table :: dataframe where
  "truth_table = \<lparr>index = [0, 1, 2, 3, 4, 5, 6, 7, 8], data =
     [(''purchased'', [NA, B False, B True, I 0, I 2, F (Fin 0), F (Fin (1 / 2)),
                       S [], S ''no''])]\<rparr>"

definition truth_result :: dataframe where
  "truth_result = \<lparr>index = [0, 1, 2, 3, 4, 5, 6, 7, 8], data =
     [(''date'', replicate 9 (S ''2026-11-04'')), (''year'', replicate 9 (I 2026)),
      (''recipient'', replicate 9 (S [])), (''occasion'', replicate 9 (S [])),
      (''idea'', replicate 9 (S [])), (''budget'', replicate 9 (F (Fin 0))),
      (''purchased'', [B False, B False, B True, B False, B True, B False, B True,
                       B False, B True]),
      (''purchased_cost'', replicate 9 (F (Fin 0)))]\<rparr>"

section \<open>Properties\<close>

subsection \<open>Frames and the closed form of ensure_df\<close>

lemma seq_Inr [simp]: "seq (Inr x) f = f x"
  by (simp add: seq_def)

lemma seq_Inl [simp]: "seq (Inl x) f = Inl x"
  by (simp add: seq_def)

lemma map_of_replace:
  "map_of (map (\<lambda>(n, old). if n = c then (n, v) else (n, old)) xs) k =
     (if k = c \<and> c \<in> fst ` set xs then Some v else map_of xs k)"
proof (induction xs)
  case Nil
  then show ?case by simp
next
  case (Cons x xs)
  obtain n old where x: "x = (n, old)" by (cases x)
  show ?case using Cons by (cases "k = c") (auto simp: x)
qed

lemma map_of_setitem:
  "map_of (data (setitem df c v)) k = (if k = c then Some v else map_of (data df) k)"
proof (cases "c \<in> set (columns df)")
  case True
  then show ?thesis by (simp add: setitem_def map_of_replace columns_def)
next
  case False
  then have "map_of (data df) c = None"
    by (simp add: columns_def map_of_eq_None_iff)
  with False show ?thesis by (simp add: setitem_def map_add_def split: option.splits)
qed

lemma index_setitem [simp]: "index (setitem df c v) = index df"
  by (simp add: setitem_def)

lemma columns_setitem:
  "columns (setitem df c v) = (if c \<in> set (columns df) then columns df else columns df @ [c])"
  by (auto simp: setitem_def columns_def split_def cong: map_cong)

lemma set_columns_dom: "c \<in> set (columns df) \<longleftrightarrow> map_of (data df) c \<noteq> None"
  by (simp add: columns_def map_of_eq_None_iff)

lemma fold_missing_index:
  "index (fold (\<lambda>c df. if c \<notin> set (columns df) then setitem_scalar df c (default_value e c) else df) names df0) = index df0"
  by (induction names arbitrary: df0) (auto simp: setitem_scalar_def)

lemma fold_missing_lookup:
  "map_of (data (fold (\<lambda>c df. if c \<notin> set (columns df) then setitem_scalar df c (default_value e c) else df) names df0)) k =
     (case map_of (data df0) k of
        Some v \<Rightarrow> Some v
      | None \<Rightarrow> if k \<in> set names then Some (replicate (length (index df0)) (default_value e k)) else None)"
  by (induction names arbitrary: df0)
     (auto simp: setitem_scalar_def map_of_setitem set_columns_dom split: option.splits)

lemma add_missing_lookup:
  "map_of (data (add_missing e df)) k =
     (if k \<in> set COLUMNS then Some (col_or_default e df k) else map_of (data df) k)"
  by (auto simp: add_missing_def fold_missing_lookup col_or_default_def split: option.splits)

lemma add_missing_index [simp]: "index (add_missing e df) = index df"
  by (simp add: add_missing_def fold_missing_index)

lemma fold_missing_frame:
  "\<exists>cs. fold (\<lambda>c df. if c \<notin> set (columns df) then setitem_scalar df c (default_value e c) else df) names df0
         = df0\<lparr>data := cs\<rparr>"
proof (induction names arbitrary: df0)
  case Nil
  have "df0 = df0\<lparr>data := data df0\<rparr>" by simp
  then show ?case by (metis fold_simps(1))
next
  case (Cons c names)
  show ?case
  proof (cases "c \<in> set (columns df0)")
    case True
    then show ?thesis using Cons [of df0] by simp
  next
    case False
    obtain cs where "fold (\<lambda>c df. if c \<notin> set (columns df) then setitem_scalar df c (default_value e c) else df) names
            (setitem_scalar df0 c (default_value e c)) = (setitem_scalar df0 c (default_value e c))\<lparr>data := cs\<rparr>"
      using Cons by blast
    then show ?thesis using False by (auto simp: setitem_scalar_def setitem_def)
  qed
qed

lemma add_missing_frame: "add_missing e df\<lparr>data := cs\<rparr> = df\<lparr>data := cs\<rparr>"
proof -
  obtain cs' where "add_missing e df = df\<lparr>data := cs'\<rparr>"
    unfolding add_missing_def using fold_missing_frame by blast
  then show ?thesis by simp
qed

lemma select_present:
  assumes "\<And>c. c \<in> set names \<Longrightarrow> map_of (data df) c = Some (g c)"
  shows "map_result (\<lambda>c. seq (getitem df c) (\<lambda>v. Inr (c, v))) names = Inr (map (\<lambda>c. (c, g c)) names)"
  using assms by (induction names) (simp_all add: getitem_def)

lemma select_add_missing:
  "select (add_missing e df) COLUMNS =
     Inr (df\<lparr>data := map (\<lambda>c. (c, col_or_default e df c)) COLUMNS\<rparr>)"
proof -
  have "map_result (\<lambda>c. seq (getitem (add_missing e df) c) (\<lambda>v. Inr (c, v))) COLUMNS
          = Inr (map (\<lambda>c. (c, col_or_default e df c)) COLUMNS)"
    by (rule select_present) (simp add: add_missing_lookup)
  then show ?thesis by (simp add: select_def add_missing_frame)
qed

lemma ensure_df_eq:
  "ensure_df e df =
     seq (map_result (coerce_year e) (col_or_default e df ''year'')) (\<lambda>ys. Inr (normalized e df ys))"
  unfolding ensure_df_def select_add_missing
  by (cases "map_result (coerce_year e) (col_or_default e df ''year'')")
     (simp_all add: COLUMNS_def assign_map_def assign_map_result_def
        for_cols_def getitem_def setitem_def columns_def normalized_def)

subsection \<open>Cell coercions reach fixed points\<close>

lemma map_result_Inr_iff:
  "map_result f xs = Inr ys \<longleftrightarrow> length ys = length xs \<and> (\<forall>i < length xs. f (xs ! i) = Inr (ys ! i))"
proof (induction xs arbitrary: ys)
  case Nil
  then show ?case by auto
next
  case (Cons x xs)
  show ?case
  proof (cases ys)
    case Nil
    then show ?thesis by (auto split: sum.splits)
  next
    case (Cons y ys')
    then show ?thesis using Cons.IH [of ys']
      by (auto simp: less_Suc_eq_0_disj split: sum.splits)
  qed
qed

lemma map_result_fixed:
  "(\<And>x. x \<in> set xs \<Longrightarrow> f x = Inr x) \<Longrightarrow> map_result f xs = Inr xs"
  by (induction xs) simp_all

lemma coerce_year_is_int: "coerce_year e c = Inr y \<Longrightarrow> \<exists>i. y = I i"
  by (cases "fillna_num (NInt (now_year e)) (to_numeric e c)" rule: astype_int.cases)
     (auto simp: coerce_year_def)

lemma coerce_year_int [simp]: "coerce_year e (I i) = Inr (I i)"
  by (simp add: coerce_year_def fillna_num_def)

lemma map_result_year_ints:
  "map_result (coerce_year e) xs = Inr ys \<Longrightarrow> y \<in> set ys \<Longrightarrow> \<exists>i. y = I i"
  by (auto simp: map_result_Inr_iff in_set_conv_nth dest: coerce_year_is_int)

lemma coerce_text_twice [simp]: "coerce_text e' (coerce_text e c) = coerce_text e c"
  by (cases c) (auto simp: coerce_text_def fillna_def)

lemma coerce_money_twice [simp]: "coerce_money e' (coerce_money e c) = coerce_money e c"
  by (cases "fillna_num (NFlt (Fin 0)) (to_numeric e c)") (auto simp: coerce_money_def fillna_num_def)

lemma coerce_purchased_twice [simp]: "coerce_purchased (coerce_purchased c) = coerce_purchased c"
  by (simp add: coerce_purchased_def fillna_def astype_bool_def)

lemma col_or_default_normalized:
  "col_or_default e' (normalized e df ys) ''date'' = map (coerce_text e) (col_or_default e df ''date'')"
  "col_or_default e' (normalized e df ys) ''year'' = ys"
  "col_or_default e' (normalized e df ys) ''recipient'' = map (coerce_text e) (col_or_default e df ''recipient'')"
  "col_or_default e' (normalized e df ys) ''occasion'' = map (coerce_text e) (col_or_default e df ''occasion'')"
  "col_or_default e' (normalized e df ys) ''idea'' = map (coerce_text e) (col_or_default e df ''idea'')"
  "col_or_default e' (normalized e df ys) ''budget'' = map (coerce_money e) (col_or_default e df ''budget'')"
  "col_or_default e' (normalized e df ys) ''purchased'' = map coerce_purchased (col_or_default e df ''purchased'')"
  "col_or_default e' (normalized e df ys) ''purchased_cost'' = map (coerce_money e) (col_or_default e df ''purchased_cost'')"
  by (simp_all add: col_or_default_def normalized_def)

lemma normalized_twice:
  "normalized e' (normalized e df ys) ys = normalized e df ys"
  unfolding normalized_def [of e' "normalized e df ys" ys] col_or_default_normalized
  by (simp add: normalized_def)

lemma ensure_df_Inr_iff:
  "ensure_df e df = Inr df' \<longleftrightarrow>
     (\<exists>ys. map_result (coerce_year e) (col_or_default e df ''year'') = Inr ys \<and> df' = normalized e df ys)"
  by (cases "map_result (coerce_year e) (col_or_default e df ''year'')") (auto simp: ensure_df_eq)

lemma ensure_df_fixed:
  assumes "ensure_df e df = Inr df'"
  shows "ensure_df e' df' = Inr df'"
proof -
  obtain ys where ys: "map_result (coerce_year e) (col_or_default e df ''year'') = Inr ys"
    and df': "df' = normalized e df ys"
    using assms by (auto simp: ensure_df_Inr_iff)
  have "map_result (coerce_year e') ys = Inr ys"
  proof (rule map_result_fixed)
    fix y assume "y \<in> set ys"
    then obtain i where "y = I i" using map_result_year_ints [OF ys] by blast
    then show "coerce_year e' y = Inr y" by simp
  qed
  then show ?thesis
    by (simp add: ensure_df_Inr_iff df' col_or_default_normalized normalized_twice)
qed

subsection \<open>Reading the result of ensure_df\<close>

lemma getitem_normalized:
  "getitem (normalized e df ys) ''date'' = Inr (map (coerce_text e) (col_or_default e df ''date''))"
  "getitem (normalized e df ys) ''year'' = Inr ys"
  "getitem (normalized e df ys) ''recipient'' = Inr (map (coerce_text e) (col_or_default e df ''recipient''))"
  "getitem (normalized e df ys) ''occasion'' = Inr (map (coerce_text e) (col_or_default e df ''occasion''))"
  "getitem (normalized e df ys) ''idea'' = Inr (map (coerce_text e) (col_or_default e df ''idea''))"
  "getitem (normalized e df ys) ''budget'' = Inr (map (coerce_money e) (col_or_default e df ''budget''))"
  "getitem (normalized e df ys) ''purchased'' = Inr (map coerce_purchased (col_or_default e df ''purchased''))"
  "getitem (normalized e df ys) ''purchased_cost'' = Inr (map (coerce_money e) (col_or_default e df ''purchased_cost''))"
  by (simp_all add: getitem_def normalized_def)

lemma columns_normalized [simp]: "columns (normalized e df ys) = COLUMNS"
  by (simp add: columns_def normalized_def COLUMNS_def)

lemma index_normalized [simp]: "index (normalized e df ys) = index df"
  by (simp add: normalized_def)

lemma col_or_default_present: "map_of (data df) c = Some v \<Longrightarrow> col_or_default e df c = v"
  by (simp add: col_or_default_def)

lemma col_or_default_missing:
  "map_of (data df) c = None \<Longrightarrow> col_or_default e df c = replicate (length (index df)) (default_value e c)"
  by (simp add: col_or_default_def)

lemma coerce_purchased_cases:
  "coerce_purchased c = (if c = NA then B False else B (truthy c))"
  by (simp add: coerce_purchased_def fillna_def astype_bool_def)

lemma coerce_text_cases:
  "coerce_text e c = (if c = NA then S [] else astype_str e c)"
  by (simp add: coerce_text_def fillna_def)

subsection \<open>When ensure_df returns\<close>

lemma map_result_total:
  "(\<And>x. x \<in> set xs \<Longrightarrow> \<exists>y. f x = Inr y) \<Longrightarrow> \<exists>ys. map_result f xs = Inr ys"
proof (induction xs)
  case Nil
  then show ?case by simp
next
  case (Cons x xs)
  obtain y where "f x = Inr y" using Cons.prems [of x] by auto
  moreover obtain ys where "map_result f xs = Inr ys" using Cons by auto
  ultimately show ?case by simp
qed

lemma coerce_year_total: "\<not> reads_infinite e c \<Longrightarrow> \<exists>y. coerce_year e c = Inr y"
  by (cases "fillna_num (NInt (now_year e)) (to_numeric e c)" rule: astype_int.cases)
     (auto simp: coerce_year_def reads_infinite_def fillna_num_def split: option.splits)

lemma coerce_year_unreadable: "to_numeric e c = None \<Longrightarrow> coerce_year e c = Inr (I (now_year e))"
  by (simp add: coerce_year_def fillna_num_def)

lemma coerce_money_unreadable: "to_numeric e c = None \<Longrightarrow> coerce_money e c = F (Fin 0)"
  by (simp add: coerce_money_def fillna_num_def)

lemma coerce_default [simp]:
  "coerce_text e (S s) = S s"
  "coerce_money e (F f) = F f"
  "coerce_purchased (B b) = B b"
  by (simp_all add: coerce_text_def coerce_money_def coerce_purchased_def fillna_def fillna_num_def astype_bool_def)

lemma year_column_total:
  assumes "\<forall>v. map_of (data df) ''year'' = Some v \<longrightarrow> (\<forall>c \<in> set v. \<not> reads_infinite e c)"
  shows "\<exists>ys. map_result (coerce_year e) (col_or_default e df ''year'') = Inr ys"
proof (rule map_result_total)
  fix x assume x: "x \<in> set (col_or_default e df ''year'')"
  show "\<exists>y. coerce_year e x = Inr y"
  proof (cases "map_of (data df) ''year''")
    case None
    then have "x = I (now_year e)" using x by (auto simp: col_or_default_def default_value_def)
    then show ?thesis by simp
  next
    case (Some v)
    then show ?thesis using x assms by (auto simp: col_or_default_def intro: coerce_year_total)
  qed
qed

lemma year_column_missing:
  "map_of (data df) ''year'' = None \<Longrightarrow>
   map_result (coerce_year e) (col_or_default e df ''year'') = Inr ys \<Longrightarrow>
   ys = replicate (length (index df)) (I (now_year e))"
  by (auto simp: map_result_Inr_iff col_or_default_def default_value_def intro!: nth_equalityI)

lemma year_column_present:
  "map_of (data df) ''year'' = Some v \<Longrightarrow>
   map_result (coerce_year e) (col_or_default e df ''year'') = Inr ys \<Longrightarrow>
   length ys = length v \<and> (\<forall>i < length v. to_numeric e (v ! i) = None \<longrightarrow> ys ! i = I (now_year e))"
  by (auto simp: map_result_Inr_iff col_or_default_def coerce_year_unreadable)

lemma year_infinity_raises: "ensure_df sample_env inf_year_table = Inl IntCastingNaNError"
  by code_simp

subsection \<open>The write-back of edited rows\<close>

lemma loc_assign_untouched:
  "p < length idx \<Longrightarrow> p < length col \<Longrightarrow> idx ! p \<notin> set labels \<Longrightarrow>
   loc_assign labels vals idx col ! p = col ! p"
proof -
  assume p: "p < length idx" "p < length col" and l: "idx ! p \<notin> set labels"
  have "map_of (zip labels vals) (idx ! p) = None"
    using l by (auto simp: map_of_eq_None_iff dest: set_zip_leftD)
  then show ?thesis using p by (simp add: loc_assign_def)
qed

lemma write_column_Inr:
  assumes "write_column edited c g = Inr g'"
  shows "index g' = index g" and "columns g' = columns g"
    and "k \<noteq> c \<Longrightarrow> getitem g' k = getitem g k"
    and "\<exists>new old. getitem edited c = Inr new \<and> getitem g c = Inr old
           \<and> getitem g' c = Inr (loc_assign (index edited) new (index g) old)"
proof -
  obtain new old where n: "getitem edited c = Inr new" and o: "getitem g c = Inr old"
    and g': "g' = setitem g c (loc_assign (index edited) new (index g) old)"
    using assms
    by (cases "getitem edited c"; cases "getitem g c") (auto simp: write_column_def)
  have c: "c \<in> set (columns g)"
    using o by (auto simp: getitem_def set_columns_dom split: option.splits)
  show "index g' = index g" by (simp add: g')
  show "columns g' = columns g" using c by (simp add: g' columns_setitem)
  show "getitem g' k = getitem g k" if "k \<noteq> c"
    using that by (simp add: g' getitem_def map_of_setitem)
  show "\<exists>new old. getitem edited c = Inr new \<and> getitem g c = Inr old
           \<and> getitem g' c = Inr (loc_assign (index edited) new (index g) old)"
    using n o by (simp add: g' getitem_def map_of_setitem)
qed

lemma write_column_untouched:
  assumes "write_column edited c g = Inr g'"
    and "getitem g k = Inr v" and "getitem g' k = Inr v'"
    and "p < length (index g)" and "p < length v" and "index g ! p \<notin> set (index edited)"
  shows "v' ! p = v ! p"
proof (cases "k = c")
  case False
  then show ?thesis using write_column_Inr(3) [OF assms(1), of k] assms(2,3) by simp
next
  case True
  obtain new old where "getitem g c = Inr old"
    and "getitem g' c = Inr (loc_assign (index edited) new (index g) old)"
    using write_column_Inr(4) [OF assms(1)] by blast
  then have "v = old" and "v' = loc_assign (index edited) new (index g) old"
    using assms(2,3) True by simp_all
  then show ?thesis using assms(4,5,6) by (simp add: loc_assign_untouched)
qed

lemma write_column_length:
  assumes "write_column edited c g = Inr g'"
    and "getitem g k = Inr v" and "getitem g' k = Inr v'" and "length v = length (index g)"
  shows "length v' = length v"
proof (cases "k = c")
  case False
  then show ?thesis using write_column_Inr(3) [OF assms(1), of k] assms(2,3) by simp
next
  case True
  obtain new old where "getitem g c = Inr old"
    and "getitem g' c = Inr (loc_assign (index edited) new (index g) old)"
    using write_column_Inr(4) [OF assms(1)] by blast
  then have "v = old" and "v' = loc_assign (index edited) new (index g) old"
    using assms(2,3) True by simp_all
  then show ?thesis using assms(4) by (simp add: loc_assign_def)
qed

lemma write_back_steps:
  assumes "write_back gifts edited = Inr gifts'"
  shows "\<exists>g1. write_column edited ''purchased'' gifts = Inr g1
            \<and> write_column edited ''purchased_cost'' g1 = Inr gifts'"
  using assms
  by (cases "write_column edited ''purchased'' gifts")
     (auto simp: write_back_def for_cols_def edit_cols_def split: if_splits)

lemma getitem_some_after_write_column:
  assumes "write_column edited c g = Inr g'" and "getitem g' k = Inr v'"
  shows "\<exists>v. getitem g k = Inr v"
proof (cases "k = c")
  case False
  then have "getitem g' k = getitem g k" using write_column_Inr(3) [OF assms(1)] by blast
  with assms(2) have "getitem g k = Inr v'" by simp
  then show ?thesis by blast
next
  case True
  then show ?thesis using write_column_Inr(4) [OF assms(1)] by blast
qed

lemma write_back_frame:
  assumes wb: "write_back gifts edited = Inr gifts'"
  shows "index gifts' = index gifts" and "columns gifts' = columns gifts"
    and "c \<notin> set edit_cols \<Longrightarrow> getitem gifts' c = getitem gifts c"
    and "getitem gifts c = Inr v \<Longrightarrow> getitem gifts' c = Inr v' \<Longrightarrow>
         length v = length (index gifts) \<Longrightarrow> p < length v \<Longrightarrow>
         index gifts ! p \<notin> set (index edited) \<Longrightarrow> v' ! p = v ! p"
proof -
  obtain g1 where s1: "write_column edited ''purchased'' gifts = Inr g1"
    and s2: "write_column edited ''purchased_cost'' g1 = Inr gifts'"
    using write_back_steps [OF wb] by blast
  show "index gifts' = index gifts"
    using write_column_Inr(1) [OF s1] write_column_Inr(1) [OF s2] by simp
  show "columns gifts' = columns gifts"
    using write_column_Inr(2) [OF s1] write_column_Inr(2) [OF s2] by simp
  show "getitem gifts' c = getitem gifts c" if "c \<notin> set edit_cols"
    using that write_column_Inr(3) [OF s1, of c] write_column_Inr(3) [OF s2, of c]
    by (simp add: edit_cols_def)
  show "v' ! p = v ! p"
    if v: "getitem gifts c = Inr v" and v': "getitem gifts' c = Inr v'"
      and len: "length v = length (index gifts)" and p: "p < length v"
      and out: "index gifts ! p \<notin> set (index edited)"
  proof -
    obtain w where w: "getitem g1 c = Inr w"
      using getitem_some_after_write_column [OF s2 v'] by blast
    have i1: "index g1 = index gifts" using write_column_Inr(1) [OF s1] .
    have lw: "length w = length v" using write_column_length [OF s1 v w len] .
    have "w ! p = v ! p"
      using write_column_untouched [OF s1 v w] p len out by simp
    moreover have "v' ! p = w ! p"
      using write_column_untouched [OF s2 w v'] p len out lw i1 by simp
    ultimately show ?thesis by simp
  qed
qed

lemma index_loc_mask: "set (index (loc_mask df m)) \<subseteq> set (index df)"
  by (auto simp: loc_mask_def keep_def dest: set_zip_rightD)

subsection \<open>The ledger invariant\<close>

lemma distinct_COLUMNS [simp]: "distinct COLUMNS"
  by (simp add: COLUMNS_def)

lemma in_data_iff:
  "distinct (columns df) \<Longrightarrow> (c, v) \<in> set (data df) \<longleftrightarrow> map_of (data df) c = Some v"
  by (simp add: columns_def)

lemma typed_ledger_iff:
  "typed_ledger df \<longleftrightarrow>
     columns df = COLUMNS \<and> (\<forall>c v. map_of (data df) c = Some v \<longrightarrow> list_all (has_type c) v)"
proof (cases "columns df = COLUMNS")
  case True
  then have d: "distinct (columns df)" by simp
  have "list_all (\<lambda>(c, v). list_all (has_type c) v) (data df)
          \<longleftrightarrow> (\<forall>c v. (c, v) \<in> set (data df) \<longrightarrow> list_all (has_type c) v)"
    by (auto simp: list_all_iff)
  then show ?thesis using True by (simp add: typed_ledger_def in_data_iff [OF d])
next
  case False
  then show ?thesis by (simp add: typed_ledger_def)
qed

lemma wf_frame_iff:
  "wf_frame df \<longleftrightarrow>
     distinct (columns df) \<and> (\<forall>c v. map_of (data df) c = Some v \<longrightarrow> length v = length (index df))"
proof (cases "distinct (columns df)")
  case True
  have "list_all (\<lambda>(c, v). length v = length (index df)) (data df)
          \<longleftrightarrow> (\<forall>c v. (c, v) \<in> set (data df) \<longrightarrow> length v = length (index df))"
    by (auto simp: list_all_iff)
  then show ?thesis using True by (simp add: wf_frame_def in_data_iff [OF True])
next
  case False
  then show ?thesis by (simp add: wf_frame_def)
qed

lemma has_type_coerce_text:
  "c \<noteq> ''year'' \<Longrightarrow> c \<noteq> ''budget'' \<Longrightarrow> c \<noteq> ''purchased_cost'' \<Longrightarrow> c \<noteq> ''purchased'' \<Longrightarrow>
   has_type c (coerce_text e x)"
  by (cases x) (simp_all add: has_type_def coerce_text_def fillna_def)

lemma has_type_coerce_money:
  "has_type ''budget'' (coerce_money e x)" "has_type ''purchased_cost'' (coerce_money e x)"
  by (cases "fillna_num (NFlt (Fin 0)) (to_numeric e x)"; simp add: has_type_def coerce_money_def)+

lemma has_type_coerce_purchased: "has_type ''purchased'' (coerce_purchased x)"
  by (simp add: has_type_def coerce_purchased_def astype_bool_def)

lemma has_type_year: "has_type ''year'' (I i)"
  by (simp add: has_type_def)

lemma typed_normalized:
  assumes "map_result (coerce_year e) xs = Inr ys"
  shows "typed_ledger (normalized e df ys)"
proof -
  have "has_type ''year'' y" if "y \<in> set ys" for y
    using map_result_year_ints [OF assms that] by (auto simp: has_type_year)
  then have "list_all (has_type ''year'') ys"
    by (simp add: list_all_iff)
  then show ?thesis
    by (simp add: typed_ledger_def columns_def COLUMNS_def normalized_def list_all_iff
          has_type_coerce_text has_type_coerce_money has_type_coerce_purchased)
qed

lemma length_col_or_default:
  "wf_frame df \<Longrightarrow> length (col_or_default e df c) = length (index df)"
  by (auto simp: wf_frame_iff col_or_default_def split: option.splits)

lemma wf_normalized:
  assumes "wf_frame df" and "map_result (coerce_year e) (col_or_default e df ''year'') = Inr ys"
  shows "wf_frame (normalized e df ys)"
proof -
  have "length ys = length (index df)"
    using assms by (simp add: map_result_Inr_iff length_col_or_default)
  then show ?thesis
    using assms(1)
    by (simp add: wf_frame_def columns_def normalized_def length_col_or_default)
qed

lemma nonneg_coerce_money: "reads_nonneg e x \<Longrightarrow> nonneg (coerce_money e x)"
  by (cases "to_numeric e x") (simp_all add: reads_nonneg_def coerce_money_def fillna_num_def)

lemma reads_nonneg_if_nonneg: "nonneg x \<Longrightarrow> reads_nonneg e x"
  by (cases x rule: nonneg.cases) (simp_all add: reads_nonneg_def)

lemma amounts_normalized:
  "amounts (normalized e df ys) =
     map (coerce_money e) (col_or_default e df ''budget'')
     @ map (coerce_money e) (col_or_default e df ''purchased_cost'')"
  by (simp add: amounts_def column_or_nulls_def normalized_def)

lemma reads_nonneg_default:
  "list_all (reads_nonneg e) (present_column df c) \<Longrightarrow> c = ''budget'' \<or> c = ''purchased_cost'' \<Longrightarrow>
   list_all (reads_nonneg e) (col_or_default e df c)"
  by (auto simp: present_column_def col_or_default_def default_value_def reads_nonneg_def list_all_iff
        split: option.splits)

lemma nonneg_normalized:
  assumes "list_all (reads_nonneg e) (supplied_amounts df)"
  shows "nonneg_amounts (normalized e df ys)"
proof -
  have "list_all (reads_nonneg e) (col_or_default e df ''budget'')"
    and "list_all (reads_nonneg e) (col_or_default e df ''purchased_cost'')"
    using assms by (simp_all add: supplied_amounts_def reads_nonneg_default)
  then show ?thesis
    by (auto simp: nonneg_amounts_def amounts_normalized list_all_iff nonneg_coerce_money)
qed

lemma ensure_df_invariant:
  assumes "ensure_df e df = Inr d"
  shows "typed_ledger d" and "wf_frame df \<Longrightarrow> wf_frame d"
    and "list_all (reads_nonneg e) (supplied_amounts df) \<Longrightarrow> nonneg_amounts d"
proof -
  obtain ys where ys: "map_result (coerce_year e) (col_or_default e df ''year'') = Inr ys"
    and d: "d = normalized e df ys"
    using assms by (auto simp: ensure_df_Inr_iff)
  show "typed_ledger d" using ys d by (simp add: typed_normalized)
  show "wf_frame d" if "wf_frame df" using that ys d by (simp add: wf_normalized)
  show "nonneg_amounts d" if "list_all (reads_nonneg e) (supplied_amounts df)"
    using that d by (simp add: nonneg_normalized)
qed

lemma getitem_Inr_iff: "getitem df c = Inr v \<longleftrightarrow> map_of (data df) c = Some v"
  by (simp add: getitem_def split: option.splits)

lemma map_of_pd_concat:
  "map_of (data (pd_concat a b)) c =
     (if c \<in> set (columns a) \<union> set (columns b)
      then Some (column_or_nulls a c @ column_or_nulls b c) else None)"
proof -
  let ?names = "columns a @ filter (\<lambda>c. c \<notin> set (columns a)) (columns b)"
  let ?f = "\<lambda>c. column_or_nulls a c @ column_or_nulls b c"
  have "map_of (data (pd_concat a b)) = (Some \<circ> ?f) |` set ?names"
    unfolding pd_concat_def by (simp only: dataframe.simps map_of_map_restrict)
  then show ?thesis by (auto simp: restrict_map_def)
qed

lemma columns_pd_concat:
  "columns (pd_concat a b) = columns a @ filter (\<lambda>c. c \<notin> set (columns a)) (columns b)"
  by (simp add: pd_concat_def columns_def comp_def)

lemma length_column_or_nulls:
  "wf_frame df \<Longrightarrow> length (column_or_nulls df c) = length (index df)"
  by (auto simp: wf_frame_iff column_or_nulls_def split: option.splits)

lemma wf_pd_concat:
  assumes "wf_frame a" and "wf_frame b"
  shows "wf_frame (pd_concat a b)"
proof -
  have "distinct (columns (pd_concat a b))"
    using assms by (auto simp: columns_pd_concat wf_frame_iff)
  moreover have "length v = length (index (pd_concat a b))"
    if "map_of (data (pd_concat a b)) c = Some v" for c v
  proof -
    have "v = column_or_nulls a c @ column_or_nulls b c"
      using that by (simp add: map_of_pd_concat split: if_splits)
    then show ?thesis
      using assms by (simp add: length_column_or_nulls pd_concat_def)
  qed
  ultimately show ?thesis by (simp add: wf_frame_iff)
qed

lemma wf_new_row: "wf_frame (new_row d)"
  by (simp add: wf_frame_def new_row_def columns_def)

lemma supplied_pd_concat_new_row:
  "supplied_amounts (pd_concat g (new_row d)) =
     (column_or_nulls g ''budget'' @ [F (Fin (budget d))])
     @ (column_or_nulls g ''purchased_cost'' @ [F (Fin (purchased_cost d))])"
proof -
  have b: "''budget'' \<in> set (columns (new_row d))"
    and c: "''purchased_cost'' \<in> set (columns (new_row d))"
    by (simp_all add: new_row_def columns_def)
  have "column_or_nulls (new_row d) ''budget'' = [F (Fin (budget d))]"
    and "column_or_nulls (new_row d) ''purchased_cost'' = [F (Fin (purchased_cost d))]"
    by (simp_all add: new_row_def column_or_nulls_def)
  then show ?thesis
    using b c by (simp add: supplied_amounts_def present_column_def map_of_pd_concat)
qed

lemma add_invariant:
  assumes "add e gifts dr = Inr d"
  shows "typed_ledger d" and "wf_frame gifts \<Longrightarrow> wf_frame d"
    and "nonneg_amounts gifts \<Longrightarrow> 0 \<le> budget dr \<Longrightarrow> 0 \<le> purchased_cost dr \<Longrightarrow> nonneg_amounts d"
proof -
  have run: "ensure_df e (pd_concat gifts (new_row dr)) = Inr d"
    using assms by (simp add: add_def)
  show "typed_ledger d" by (rule ensure_df_invariant(1) [OF run])
  show "wf_frame d" if "wf_frame gifts"
    using that by (intro ensure_df_invariant(2) [OF run] wf_pd_concat wf_new_row)
  show "nonneg_amounts d"
    if n: "nonneg_amounts gifts" and b: "0 \<le> budget dr" and c: "0 \<le> purchased_cost dr"
  proof (rule ensure_df_invariant(3) [OF run])
    have "list_all nonneg (column_or_nulls gifts ''budget'')"
      and "list_all nonneg (column_or_nulls gifts ''purchased_cost'')"
      using n by (simp_all add: nonneg_amounts_def amounts_def)
    moreover have "reads_nonneg e (F (Fin (budget dr)))"
      and "reads_nonneg e (F (Fin (purchased_cost dr)))"
      using b c by (simp_all add: reads_nonneg_def)
    ultimately show "list_all (reads_nonneg e) (supplied_amounts (pd_concat gifts (new_row dr)))"
      by (auto simp: supplied_pd_concat_new_row list_all_iff reads_nonneg_if_nonneg)
  qed
qed

lemma import_csv_fst:
  "fst (import_csv e gifts up) = gifts
   \<or> (\<exists>df. read_csv e up = Inr df \<and> ensure_df e df = Inr (fst (import_csv e gifts up)))"
  by (cases "read_csv e up"; cases "seq (read_csv e up) (ensure_df e)")
     (auto simp: import_csv_def)

lemma loc_assign_pred:
  assumes "list_all Q old" and "list_all Q new"
  shows "list_all Q (loc_assign labels new idx old)"
proof -
  have "Q (case map_of (zip labels new) l of Some v \<Rightarrow> v | None \<Rightarrow> x)"
    if "(l, x) \<in> set (zip idx old)" for l x
  proof (cases "map_of (zip labels new) l")
    case None
    then show ?thesis using that assms(1) by (auto simp: list_all_iff dest: set_zip_rightD)
  next
    case (Some v)
    then have "v \<in> set new" by (auto dest!: map_of_SomeD set_zip_rightD)
    then show ?thesis using Some assms(2) by (simp add: list_all_iff)
  qed
  then show ?thesis by (auto simp: loc_assign_def list_all_iff)
qed

lemma length_loc_assign:
  "length (loc_assign labels new idx old) = min (length idx) (length old)"
  by (simp add: loc_assign_def)

lemma write_column_lookup:
  assumes "write_column edited c g = Inr g'"
  shows "\<exists>new old. map_of (data edited) c = Some new \<and> map_of (data g) c = Some old
          \<and> (\<forall>k. map_of (data g') k =
                (if k = c then Some (loc_assign (index edited) new (index g) old)
                 else map_of (data g) k))"
proof -
  obtain new old where n: "getitem edited c = Inr new" and o: "getitem g c = Inr old"
    and g': "g' = setitem g c (loc_assign (index edited) new (index g) old)"
    using assms
    by (cases "getitem edited c"; cases "getitem g c") (auto simp: write_column_def)
  show ?thesis
    using n o by (auto simp: g' getitem_Inr_iff map_of_setitem)
qed

lemma write_column_pred:
  assumes wc: "write_column edited c g = Inr g'"
    and g: "\<And>k v. map_of (data g) k = Some v \<Longrightarrow> list_all (Q k) v"
    and new: "list_all (Q c) (present_column edited c)"
    and v: "map_of (data g') k = Some v"
  shows "list_all (Q k) v"
proof -
  obtain new old where n: "map_of (data edited) c = Some new" and o: "map_of (data g) c = Some old"
    and l: "\<And>k. map_of (data g') k =
                (if k = c then Some (loc_assign (index edited) new (index g) old)
                 else map_of (data g) k)"
    using write_column_lookup [OF wc] by blast
  show ?thesis
  proof (cases "k = c")
    case True
    then have "v = loc_assign (index edited) new (index g) old" using v l by simp
    moreover have "list_all (Q c) new" using new n by (simp add: present_column_def)
    moreover have "list_all (Q c) old" using g o by blast
    ultimately show ?thesis using True by (simp add: loc_assign_pred)
  next
    case False
    then show ?thesis using v l g by simp
  qed
qed

lemma write_column_wf:
  assumes wc: "write_column edited c g = Inr g'" and wf: "wf_frame g"
  shows "wf_frame g'"
proof -
  obtain new old where o: "map_of (data g) c = Some old"
    and l: "\<And>k. map_of (data g') k =
                (if k = c then Some (loc_assign (index edited) new (index g) old)
                 else map_of (data g) k)"
    using write_column_lookup [OF wc] by blast
  have lo: "length old = length (index g)" using wf o by (simp add: wf_frame_iff)
  have "length v = length (index g')" if "map_of (data g') k = Some v" for k v
    using that l [of k] wf lo write_column_Inr(1) [OF wc]
    by (auto simp: wf_frame_iff length_loc_assign split: if_splits)
  then show ?thesis
    using wf write_column_Inr(2) [OF wc] by (simp add: wf_frame_iff)
qed

lemma nonneg_amounts_iff:
  "nonneg_amounts g \<longleftrightarrow>
     (\<forall>k v. map_of (data g) k = Some v \<longrightarrow>
        list_all (\<lambda>x. (k = ''budget'' \<or> k = ''purchased_cost'') \<longrightarrow> nonneg x) v)"
  if "columns g = COLUMNS"
proof -
  have "''budget'' \<in> set (columns g)" and "''purchased_cost'' \<in> set (columns g)"
    using that by (simp_all add: COLUMNS_def)
  then obtain b c where b: "map_of (data g) ''budget'' = Some b"
    and c: "map_of (data g) ''purchased_cost'' = Some c"
    by (auto simp: set_columns_dom)
  have "nonneg_amounts g \<longleftrightarrow> list_all nonneg b \<and> list_all nonneg c"
    using b c by (simp add: nonneg_amounts_def amounts_def column_or_nulls_def)
  also have "\<dots> \<longleftrightarrow> (\<forall>k v. map_of (data g) k = Some v \<longrightarrow>
        list_all (\<lambda>x. (k = ''budget'' \<or> k = ''purchased_cost'') \<longrightarrow> nonneg x) v)"
    using b c by (auto simp: list_all_iff)
  finally show ?thesis .
qed

lemma write_back_invariant:
  assumes wb: "write_back gifts edited = Inr d" and ok: "ledger_ok gifts"
    and te: "typed_edits edited"
  shows "ledger_ok d"
    and "nonneg_amounts gifts \<Longrightarrow> list_all nonneg (present_column edited ''purchased_cost'')
           \<Longrightarrow> nonneg_amounts d"
proof -
  obtain g1 where s1: "write_column edited ''purchased'' gifts = Inr g1"
    and s2: "write_column edited ''purchased_cost'' g1 = Inr d"
    using write_back_steps [OF wb] by blast
  have cols: "columns d = COLUMNS"
    using ok write_column_Inr(2) [OF s1] write_column_Inr(2) [OF s2]
    by (simp add: ledger_ok_def typed_ledger_iff)
  have t0: "\<And>k v. map_of (data gifts) k = Some v \<Longrightarrow> list_all (has_type k) v"
    using ok by (simp add: ledger_ok_def typed_ledger_iff)
  have t1: "\<And>k v. map_of (data g1) k = Some v \<Longrightarrow> list_all (has_type k) v"
    using write_column_pred [OF s1, of has_type] t0 te by (simp add: typed_edits_def)
  have t2: "\<And>k v. map_of (data d) k = Some v \<Longrightarrow> list_all (has_type k) v"
    using write_column_pred [OF s2, of has_type] t1 te by (simp add: typed_edits_def)
  have "wf_frame d"
    using ok by (intro write_column_wf [OF s2] write_column_wf [OF s1]) (simp add: ledger_ok_def)
  then show "ledger_ok d"
    using cols t2 by (simp add: ledger_ok_def typed_ledger_iff)
  show "nonneg_amounts d"
    if n: "nonneg_amounts gifts" and e: "list_all nonneg (present_column edited ''purchased_cost'')"
  proof -
    let ?Q = "\<lambda>k x. (k = ''budget'' \<or> k = ''purchased_cost'') \<longrightarrow> nonneg x"
    have c0: "columns gifts = COLUMNS" using ok by (simp add: ledger_ok_def typed_ledger_iff)
    have n0: "\<And>k v. map_of (data gifts) k = Some v \<Longrightarrow> list_all (?Q k) v"
      using n nonneg_amounts_iff [OF c0] by blast
    have "list_all (?Q ''purchased'') (present_column edited ''purchased'')"
      by (simp add: list_all_iff)
    then have n1: "\<And>k v. map_of (data g1) k = Some v \<Longrightarrow> list_all (?Q k) v"
      using write_column_pred [OF s1, of ?Q] n0 by blast
    have "list_all (?Q ''purchased_cost'') (present_column edited ''purchased_cost'')"
      using e by (simp add: list_all_iff)
    then have n2: "\<And>k v. map_of (data d) k = Some v \<Longrightarrow> list_all (?Q k) v"
      using write_column_pred [OF s2, of ?Q] n1 by blast
    then show ?thesis using nonneg_amounts_iff [OF cols] by blast
  qed
qed

lemma import_of_infinite_year_fails:
  "import_csv sample_env abc_ledger inf_year_csv = (abc_ledger, Some IntCastingNaNError)"
  by code_simp

text \<open>
  The write-back leaves every column but the two edit columns as it was, and
  in every column the cells of the rows whose label is not among the labels
  of the view.
\<close>

lemma write_back_keeps_other_labels:
  assumes "filter_view gifts sp = Inr fdf"
    and "index edited = index fdf"
    and "write_back gifts edited = Inr gifts'"
  shows "index gifts' = index gifts \<and> columns gifts' = columns gifts
    \<and> (\<forall>c. c \<noteq> ''purchased'' \<and> c \<noteq> ''purchased_cost'' \<longrightarrow> getitem gifts' c = getitem gifts c)
    \<and> (\<forall>c v v' p. getitem gifts c = Inr v \<and> getitem gifts' c = Inr v'
          \<and> length v = length (index gifts) \<and> p < length v
          \<and> index gifts ! p \<notin> set (index fdf) \<longrightarrow> v' ! p = v ! p)"
proof (intro conjI allI impI)
  show "index gifts' = index gifts"
    by (rule write_back_frame(1) [OF assms(3)])
  show "columns gifts' = columns gifts"
    by (rule write_back_frame(2) [OF assms(3)])
next
  fix c :: string
  assume "c \<noteq> ''purchased'' \<and> c \<noteq> ''purchased_cost''"
  then have "c \<notin> set edit_cols"
    by (simp add: edit_cols_def)
  then show "getitem gifts' c = getitem gifts c"
    by (rule write_back_frame(3) [OF assms(3)])
next
  fix c v v' p
  assume h: "getitem gifts c = Inr v \<and> getitem gifts' c = Inr v'
          \<and> length v = length (index gifts) \<and> p < length v
          \<and> index gifts ! p \<notin> set (index fdf)"
  then have "index gifts ! p \<notin> set (index edited)"
    using assms(2) by simp
  with h show "v' ! p = v ! p"
    using write_back_frame(4) [OF assms(3), of c v v' p] by blast
qed

lemma edit_of_sample_view:
  "filter_view messy_result year_2024 = Inr view_2024
   \<and> index edited_2024 = index view_2024
   \<and> write_back messy_result edited_2024 = Inr after_edit"
  by code_simp

subsection \<open>The purchased column, cell by cell\<close>

lemma coerce_purchased_by_case:
  "coerce_purchased c =
     (case c of NA \<Rightarrow> B False | B b \<Rightarrow> B b | I i \<Rightarrow> B (i \<noteq> 0)
      | F f \<Rightarrow> B (f \<noteq> Fin 0) | S s \<Rightarrow> B (s \<noteq> []))"
  by (cases c) (simp_all add: coerce_purchased_def fillna_def astype_bool_def)

subsection \<open>The filter on a ledger\<close>

lemma keep_Cons:
  "keep (b # m) (x # xs) = (if b then x # keep m xs else keep m xs)"
  by (simp add: keep_def)

lemma keep_Nil [simp]: "keep [] xs = []" "keep m [] = []"
  by (simp_all add: keep_def)

lemma keep_map_index:
  "keep (map P js) (map g js) = map g (filter P js)"
  by (induction js) (simp_all add: keep_Cons)

lemma keep_nth:
  assumes "length m = length xs"
  shows "keep m xs = map ((!) xs) (filter ((!) m) [0 ..< length xs])"
proof -
  have "keep (map ((!) m) [0 ..< length xs]) (map ((!) xs) [0 ..< length xs])
          = map ((!) xs) (filter ((!) m) [0 ..< length xs])"
    by (rule keep_map_index)
  moreover have "map ((!) m) [0 ..< length xs] = m"
    using assms by (metis map_nth)
  moreover have "map ((!) xs) [0 ..< length xs] = xs"
    by (rule map_nth)
  ultimately show ?thesis by simp
qed

lemma starts_with_iff: "starts_with s p \<longleftrightarrow> (\<exists>suf. s = p @ suf)"
  by (induction s p rule: starts_with.induct) auto

lemma contains_iff: "contains s sub \<longleftrightarrow> (\<exists>pre suf. s = pre @ sub @ suf)"
proof (induction s)
  case Nil
  then show ?case by auto
next
  case (Cons c s)
  show ?case
  proof
    assume "contains (c # s) sub"
    then consider "starts_with (c # s) sub" | "contains s sub" by auto
    then show "\<exists>pre suf. c # s = pre @ sub @ suf"
    proof cases
      case 1
      then obtain suf where "c # s = sub @ suf" by (auto simp: starts_with_iff)
      then have "c # s = [] @ sub @ suf" by simp
      then show ?thesis by blast
    next
      case 2
      then obtain pre suf where "s = pre @ sub @ suf" using Cons.IH by blast
      then have "c # s = (c # pre) @ sub @ suf" by simp
      then show ?thesis by blast
    qed
  next
    assume "\<exists>pre suf. c # s = pre @ sub @ suf"
    then obtain pre suf where e: "c # s = pre @ sub @ suf" by blast
    show "contains (c # s) sub"
    proof (cases pre)
      case Nil
      then have "starts_with (c # s) sub" using e by (auto simp: starts_with_iff)
      then show ?thesis by simp
    next
      case (Cons a pre')
      then have "s = pre' @ sub @ suf" using e by simp
      then have "contains s sub" using Cons.IH by blast
      then show ?thesis by simp
    qed
  qed
qed

lemma re_compile_plain: "plain p \<Longrightarrow> re_compile p = Inr (map Lit p)"
  by (induction p) (auto simp: plain_def re_special_def)

lemma match_here_lits: "match_here (map Lit p) s = starts_with s p"
  by (induction s p rule: starts_with.induct) auto

lemma starts_with_Nil: "starts_with [] p = (p = [])"
  by (cases p) simp_all

lemma re_search_lits: "re_search (map Lit p) s = contains s p"
  by (induction s) (simp_all add: match_here_lits starts_with_Nil)

lemma has_type_year_iff: "has_type ''year'' x \<longleftrightarrow> (\<exists>i. x = I i)"
  by (cases x) (simp_all add: has_type_def)

lemma has_type_purchased_iff: "has_type ''purchased'' x \<longleftrightarrow> (\<exists>b. x = B b)"
  by (cases x) (simp_all add: has_type_def)

lemma has_type_recipient_iff: "has_type ''recipient'' x \<longleftrightarrow> (\<exists>s. x = S s)"
  by (cases x) (simp_all add: has_type_def)

lemma has_type_occasion_iff: "has_type ''occasion'' x \<longleftrightarrow> (\<exists>s. x = S s)"
  by (cases x) (simp_all add: has_type_def)

lemma map_of_nth:
  assumes "distinct (map fst xs)" and "j < length xs"
  shows "map_of xs (fst (xs ! j)) = Some (snd (xs ! j))"
proof -
  have "(fst (xs ! j), snd (xs ! j)) \<in> set xs"
    using assms(2) by simp
  then show ?thesis
    using assms(1) by (rule map_of_is_SomeI [rotated])
qed

lemma length_COLUMNS: "length COLUMNS = 8"
  by (simp add: COLUMNS_def)

lemma row_at_nth:
  assumes ok: "ledger_ok df" and j: "j < 8" and v: "map_of (data df) (COLUMNS ! j) = Some v"
  shows "row_at df i ! j = v ! i"
proof -
  have cols: "map fst (data df) = COLUMNS"
    using ok by (simp add: ledger_ok_def typed_ledger_def columns_def)
  have "length (map fst (data df)) = 8"
    by (simp only: cols length_COLUMNS)
  then have len: "length (data df) = 8"
    by simp
  have d: "distinct (map fst (data df))"
    by (simp only: cols distinct_COLUMNS)
  have "fst (data df ! j) = map fst (data df) ! j"
    using j len by simp
  then have "fst (data df ! j) = COLUMNS ! j"
    by (simp only: cols)
  moreover have "map_of (data df) (fst (data df ! j)) = Some (snd (data df ! j))"
    using j len by (intro map_of_nth [OF d]) simp
  ultimately have "snd (data df ! j) = v"
    using v by simp
  then show ?thesis
    using j len by (simp add: row_at_def split_def)
qed

lemma and_mask_nth:
  "length a = n \<Longrightarrow> length b = n \<Longrightarrow> and_mask a b = map (\<lambda>i. a ! i \<and> b ! i) [0 ..< n]"
  by (auto simp: and_mask_def intro!: nth_equalityI)

lemma and_mask_length [simp]: "length (and_mask a b) = min (length a) (length b)"
  by (simp add: and_mask_def)

lemma narrow_plain:
  assumes pl: "plain pat" and v: "map_of (data df) c = Some v"
    and ty: "\<And>x. x \<in> set v \<Longrightarrow> \<exists>s. x = S s" and len: "length m = length v"
  shows "narrow pat c df m = Inr (map (\<lambda>i. m ! i \<and> text_has pat (v ! i)) [0 ..< length v])"
proof (cases "pat = []")
  case True
  have "text_has [] (v ! i)" if "i < length v" for i
  proof -
    have "v ! i \<in> set v" using that by simp
    then obtain s where "v ! i = S s" using ty by blast
    then show ?thesis by (simp add: text_has_def)
  qed
  then have "map (\<lambda>i. m ! i \<and> text_has [] (v ! i)) [0 ..< length v] = m"
    using len by (auto intro!: nth_equalityI)
  then show ?thesis using True by (simp add: narrow_def)
next
  case False
  let ?hit = "\<lambda>c. case c of S s \<Rightarrow> re_search (map Lit pat) s | _ \<Rightarrow> False"
  have sc: "str_contains pat (map str_lower v) = Inr (map ?hit (map str_lower v))"
    using pl by (simp add: str_contains_def re_compile_plain)
  have hit: "?hit (str_lower (v ! i)) = text_has pat (v ! i)" if "i < length v" for i
  proof -
    have "v ! i \<in> set v" using that by simp
    then obtain s where "v ! i = S s" using ty by blast
    then show ?thesis using False by (simp add: text_has_def str_lower_def re_search_lits)
  qed
  have "and_mask m (map ?hit (map str_lower v))
          = map (\<lambda>i. m ! i \<and> text_has pat (v ! i)) [0 ..< length v]"
    using len hit by (auto simp: and_mask_def intro!: nth_equalityI)
  then show ?thesis
    using False v sc by (simp add: narrow_def getitem_def)
qed

lemma invert_bools:
  assumes "\<And>x. x \<in> set p \<Longrightarrow> \<exists>b. x = B b"
  shows "map_result invert p = Inr (map unpurchased p)"
  using assms
proof (induction p)
  case Nil
  then show ?case by simp
next
  case (Cons x p)
  obtain b where "x = B b" using Cons.prems [of x] by auto
  then have "invert x = Inr (\<not> b)" and "unpurchased x = (\<not> b)"
    by (simp_all add: invert_def unpurchased_def)
  moreover have "map_result invert p = Inr (map unpurchased p)"
    using Cons by simp
  ultimately show ?case by simp
qed

lemma isin_year: "\<exists>i. x = I i \<Longrightarrow> isin ys x = year_in ys x"
  by (auto simp: isin_def year_in_def)

lemma rows_loc_mask:
  assumes wf: "wf_frame df" and len: "length m = length (index df)"
  shows "rows (loc_mask df m) = map (row_at df) (filter ((!) m) [0 ..< length (index df)])"
    and "index (loc_mask df m) = map ((!) (index df)) (filter ((!) m) [0 ..< length (index df)])"
proof -
  let ?n = "length (index df)"
  let ?js = "filter ((!) m) [0 ..< ?n]"
  have col: "keep m v = map ((!) v) ?js" if "(c, v) \<in> set (data df)" for c v
  proof -
    have "length v = ?n" using wf that by (auto simp: wf_frame_def list_all_iff)
    then show ?thesis using keep_nth [of m v] len by simp
  qed
  show idx: "index (loc_mask df m) = map ((!) (index df)) ?js"
    using keep_nth [of m "index df"] len by (simp add: loc_mask_def)
  have "row_at (loc_mask df m) j = row_at df (?js ! j)" if "j < length ?js" for j
    using that col by (auto simp: row_at_def loc_mask_def)
  then have "map (row_at (loc_mask df m)) [0 ..< length ?js]
               = map (\<lambda>j. row_at df (?js ! j)) [0 ..< length ?js]"
    by simp
  also have "\<dots> = map (row_at df) (map ((!) ?js) [0 ..< length ?js])"
    by (simp only: map_map comp_def)
  also have "\<dots> = map (row_at df) ?js"
    by (simp only: map_nth)
  finally have "map (row_at (loc_mask df m)) [0 ..< length ?js] = map (row_at df) ?js" .
  moreover have "length (index (loc_mask df m)) = length ?js"
    by (simp only: idx length_map)
  ultimately show "rows (loc_mask df m) = map (row_at df) ?js"
    by (simp only: rows_def)
qed

lemma columns_loc_mask [simp]: "columns (loc_mask df m) = columns df"
  by (simp add: loc_mask_def columns_def split_def comp_def)

lemma ledger_column:
  assumes "ledger_ok df" and "c \<in> set COLUMNS"
  shows "\<exists>v. map_of (data df) c = Some v \<and> length v = length (index df)
           \<and> (\<forall>x \<in> set v. has_type c x)"
proof -
  have cols: "columns df = COLUMNS"
    using assms(1) by (simp add: ledger_ok_def typed_ledger_iff)
  then obtain v where v: "map_of (data df) c = Some v"
    using assms(2) set_columns_dom [of c df] by auto
  have "length v = length (index df)"
    using assms(1) v by (simp add: ledger_ok_def wf_frame_iff)
  moreover have "\<forall>x \<in> set v. has_type c x"
    using assms(1) v by (simp add: ledger_ok_def typed_ledger_iff list_all_iff)
  ultimately show ?thesis using v by blast
qed

lemma filter_view_masks:
  assumes ok: "ledger_ok df"
    and pr: "plain (lower (strip (rec_text sp)))"
    and po: "plain (lower (strip (occ_text sp)))"
  shows "filter_view df sp =
           Inr (loc_mask df (map (\<lambda>i. row_matches sp (row_at df i)) [0 ..< length (index df)]))"
proof -
  let ?n = "length (index df)"
  let ?fr = "lower (strip (rec_text sp))"
  let ?fo = "lower (strip (occ_text sp))"
  obtain y where y: "map_of (data df) ''year'' = Some y" and ly: "length y = ?n"
    and ty: "\<forall>x \<in> set y. has_type ''year'' x"
    using ledger_column [OF ok, of "''year''"] by (auto simp: COLUMNS_def)
  obtain r where r: "map_of (data df) ''recipient'' = Some r" and lr: "length r = ?n"
    and tr: "\<forall>x \<in> set r. has_type ''recipient'' x"
    using ledger_column [OF ok, of "''recipient''"] by (auto simp: COLUMNS_def)
  obtain oc where oc: "map_of (data df) ''occasion'' = Some oc" and lo: "length oc = ?n"
    and to: "\<forall>x \<in> set oc. has_type ''occasion'' x"
    using ledger_column [OF ok, of "''occasion''"] by (auto simp: COLUMNS_def)
  obtain p where p: "map_of (data df) ''purchased'' = Some p" and lp: "length p = ?n"
    and tp: "\<forall>x \<in> set p. has_type ''purchased'' x"
    using ledger_column [OF ok, of "''purchased''"] by (auto simp: COLUMNS_def)
  have ry: "row_at df i ! Suc 0 = y ! i" for i
    using row_at_nth [OF ok, of 1 y i] y by (simp add: COLUMNS_def)
  have rr: "row_at df i ! 2 = r ! i" for i
    using row_at_nth [OF ok, of 2 r i] r by (simp add: COLUMNS_def)
  have ro: "row_at df i ! 3 = oc ! i" for i
    using row_at_nth [OF ok, of 3 oc i] oc by (simp add: COLUMNS_def)
  have rp: "row_at df i ! 6 = p ! i" for i
    using row_at_nth [OF ok, of 6 p i] p by (simp add: COLUMNS_def)
  let ?m0 = "map (isin (f_year sp)) y"
  let ?m1 = "map (\<lambda>i. ?m0 ! i \<and> text_has ?fr (r ! i)) [0 ..< length r]"
  let ?m2 = "map (\<lambda>i. ?m1 ! i \<and> text_has ?fo (oc ! i)) [0 ..< length oc]"
  let ?m3 = "if show_only_unpurchased sp then and_mask ?m2 (map unpurchased p) else ?m2"
  have g0: "getitem df ''year'' = Inr y" using y by (simp add: getitem_def)
  have n1: "narrow ?fr ''recipient'' df ?m0 = Inr ?m1"
    using tr ly lr by (intro narrow_plain [OF pr r]) (auto simp: has_type_recipient_iff)
  have n2: "narrow ?fo ''occasion'' df ?m1 = Inr ?m2"
    using to lr lo by (intro narrow_plain [OF po oc]) (auto simp: has_type_occasion_iff)
  have inv: "map_result invert p = Inr (map unpurchased p)"
    using tp by (intro invert_bools) (auto simp: has_type_purchased_iff)
  have gp: "getitem df ''purchased'' = Inr p" using p by (simp add: getitem_def)
  have run: "filter_view df sp = Inr (loc_mask df ?m3)"
    unfolding filter_view_def Let_def g0 n1 n2 gp inv seq_Inr by simp
  have "?m3 = map (\<lambda>i. row_matches sp (row_at df i)) [0 ..< ?n]"
  proof (rule nth_equalityI)
    show "length ?m3 = length (map (\<lambda>i. row_matches sp (row_at df i)) [0 ..< ?n])"
      using lo lp by simp
  next
    fix i assume "i < length ?m3"
    then have i: "i < ?n" using lo lp by (simp split: if_splits)
    have "y ! i \<in> set y" using i ly by simp
    then have yi: "isin (f_year sp) (y ! i) = year_in (f_year sp) (y ! i)"
      using ty by (intro isin_year) (auto simp: has_type_year_iff)
    have m2: "?m2 ! i = (year_in (f_year sp) (y ! i) \<and> text_has ?fr (r ! i) \<and> text_has ?fo (oc ! i))"
      using i ly lr lo yi by simp
    have "?m3 ! i = (?m2 ! i \<and> (show_only_unpurchased sp \<longrightarrow> unpurchased (p ! i)))"
      using i lo lp by (simp add: and_mask_def)
    then have "?m3 ! i = row_matches sp (row_at df i)"
      unfolding m2 by (simp add: row_matches_def ry rr ro rp)
    then show "?m3 ! i = map (\<lambda>i. row_matches sp (row_at df i)) [0 ..< ?n] ! i"
      using i by simp
  qed
  then show ?thesis using run by simp
qed

section \<open>Claims\<close>

text \<open>
  C1, as amended. For every table with unique column names whose year cells
  do not read as an infinity, \<open>ensure_df\<close> returns a table with exactly the
  eight canonical columns in canonical order and the rows of the input. Every
  column the input lacks is filled with the default of the column (amounts
  0.0, purchased false, year the current year, date today's date, texts the
  empty string). In a column the input has, a year or amount cell that does
  not read as a number becomes the default of the column, a null purchased
  or text cell becomes false or the empty string, and a null date cell
  becomes the empty string, not today's date.
\<close>

theorem normalize_contract:
  assumes "wf_frame df"
    and "\<forall>v. map_of (data df) ''year'' = Some v \<longrightarrow> (\<forall>c \<in> set v. \<not> reads_infinite e c)"
  shows "\<exists>df'. ensure_df e df = Inr df' \<and> columns df' = COLUMNS \<and> index df' = index df
    \<and> (\<forall>c \<in> set COLUMNS. map_of (data df) c = None \<longrightarrow>
          getitem df' c = Inr (replicate (length (index df)) (default_value e c)))
    \<and> (\<forall>c \<in> set COLUMNS. \<forall>v. map_of (data df) c = Some v \<longrightarrow>
          (\<exists>w. getitem df' c = Inr w \<and> length w = length v
             \<and> (\<forall>i < length v. fails_coercion e c (v ! i) \<longrightarrow>
                   w ! i = (if c = ''date'' then S [] else default_value e c))))"
proof -
  obtain ys where ys: "map_result (coerce_year e) (col_or_default e df ''year'') = Inr ys"
    using year_column_total [OF assms(2)] by blast
  let ?d = "normalized e df ys"
  have run: "ensure_df e df = Inr ?d"
    by (simp add: ensure_df_eq ys)
  have missing: "\<forall>c \<in> set COLUMNS. map_of (data df) c = None \<longrightarrow>
          getitem ?d c = Inr (replicate (length (index df)) (default_value e c))"
    using year_column_missing [OF _ ys]
    by (simp add: COLUMNS_def getitem_normalized col_or_default_missing default_value_def)
  have yr: "\<forall>v. map_of (data df) ''year'' = Some v \<longrightarrow>
      length ys = length v \<and> (\<forall>i < length v. to_numeric e (v ! i) = None \<longrightarrow> ys ! i = I (now_year e))"
    using year_column_present [OF _ ys] by blast
  have present: "\<forall>c \<in> set COLUMNS. \<forall>v. map_of (data df) c = Some v \<longrightarrow>
          (\<exists>w. getitem ?d c = Inr w \<and> length w = length v
             \<and> (\<forall>i < length v. fails_coercion e c (v ! i) \<longrightarrow>
                   w ! i = (if c = ''date'' then S [] else default_value e c)))"
    using yr
    by (simp add: COLUMNS_def getitem_normalized col_or_default_present fails_coercion_def
          coerce_text_cases coerce_money_unreadable coerce_purchased_cases default_value_def)
  show ?thesis
    using run missing present by (intro exI [of _ ?d]) simp
qed

theorem normalize_contract_witness:
  "ensure_df sample_env messy_table = Inr messy_result
   \<and> columns messy_result = COLUMNS \<and> index messy_result = index messy_table"
proof -
  have wf: "wf_frame messy_table"
    by (simp add: wf_frame_def messy_table_def columns_def)
  have c1: "\<not> reads_infinite sample_env (S ''abc'')"
    by code_simp
  have c2: "\<not> reads_infinite sample_env (I 2024)"
    by code_simp
  have yr: "\<forall>v. map_of (data messy_table) ''year'' = Some v \<longrightarrow>
              (\<forall>c \<in> set v. \<not> reads_infinite sample_env c)"
    by (simp add: messy_table_def c1 c2)
  have run: "ensure_df sample_env messy_table = Inr messy_result"
    by code_simp
  from normalize_contract [OF wf yr] obtain df' where
    a: "ensure_df sample_env messy_table = Inr df'" and b: "columns df' = COLUMNS"
    and c: "index df' = index messy_table"
    by blast
  from a run have "df' = messy_result" by simp
  with run b c show ?thesis by simp
qed

theorem null_date_gets_empty_text:
  "ensure_df sample_env messy_table = Inr messy_result
   \<and> getitem messy_table ''date'' = Inr [S ''2024-12-25'', NA]
   \<and> getitem messy_result ''date'' = Inr [S ''2024-12-25'', S []]
   \<and> default_value sample_env ''date'' = S ''2026-11-04''"
proof -
  have "ensure_df sample_env messy_table = Inr messy_result"
    by code_simp
  then show ?thesis
    by (simp add: getitem_def messy_table_def messy_result_def default_value_def sample_env_def)
qed

text \<open>
  C9, as amended. When \<open>ensure_df\<close> returns, every record of a table that
  lacks the date column holds today's date; in a table that has the column a
  null date cell becomes the empty string and every other date cell keeps its
  value, rendered as text. Dates are never checked for validity.
\<close>

theorem date_column_rule:
  "ensure_df e df = Inr df' \<Longrightarrow>
     (map_of (data df) ''date'' = None \<longrightarrow>
        getitem df' ''date'' = Inr (replicate (length (index df)) (S (today_iso e))))
   \<and> (\<forall>v. map_of (data df) ''date'' = Some v \<longrightarrow>
        getitem df' ''date'' = Inr (map (\<lambda>c. if c = NA then S [] else astype_str e c) v))"
  by (auto simp: ensure_df_Inr_iff getitem_normalized col_or_default_present col_or_default_missing
        coerce_text_cases default_value_def)

theorem date_column_rule_witness:
  "ensure_df sample_env false_text_table = Inr false_text_result
   \<and> map_of (data false_text_table) ''date'' = None
   \<and> getitem false_text_result ''date'' = Inr [S ''2026-11-04'']
   \<and> ensure_df sample_env odd_dates_table = Inr odd_dates_result
   \<and> map_of (data odd_dates_table) ''date'' = Some [NA, S ''someday'']
   \<and> getitem odd_dates_result ''date'' = Inr [S [], S ''someday'']"
proof -
  have h1: "ensure_df sample_env false_text_table = Inr false_text_result"
    by code_simp
  have h2: "map_of (data false_text_table) ''date'' = None"
    by (simp add: false_text_table_def)
  have h3: "ensure_df sample_env odd_dates_table = Inr odd_dates_result"
    by code_simp
  have h4: "map_of (data odd_dates_table) ''date'' = Some [NA, S ''someday'']"
    by (simp add: odd_dates_table_def)
  from date_column_rule [OF h1] date_column_rule [OF h3] h1 h2 h3 h4 show ?thesis
    by (simp add: false_text_table_def sample_env_def)
qed

theorem null_date_not_today:
  "ensure_df sample_env odd_dates_table = Inr odd_dates_result
   \<and> getitem odd_dates_table ''date'' = Inr [NA, S ''someday'']
   \<and> getitem odd_dates_result ''date'' = Inr [S [], S ''someday'']
   \<and> today_iso sample_env = ''2026-11-04''"
proof -
  have "ensure_df sample_env odd_dates_table = Inr odd_dates_result" by code_simp
  then show ?thesis
    by (simp add: getitem_def odd_dates_table_def odd_dates_result_def sample_env_def)
qed

text \<open>
  C10. The purchased column is coerced by truth value, not by reading
  boolean words. Whenever \<open>ensure_df\<close> returns, a null purchased cell has
  become false, a bool is kept, an integer or a float is true unless it is
  zero, and a text is true unless it is empty; so the text False, one row of
  a sample table, normalises to purchased = true.
\<close>

theorem purchased_by_truthiness:
  "(ensure_df e df = Inr df' \<longrightarrow> map_of (data df) ''purchased'' = Some v \<longrightarrow>
      getitem df' ''purchased'' =
        Inr (map (\<lambda>c. case c of NA \<Rightarrow> B False | B b \<Rightarrow> B b | I i \<Rightarrow> B (i \<noteq> 0)
                        | F f \<Rightarrow> B (f \<noteq> Fin 0) | S s \<Rightarrow> B (s \<noteq> [])) v))
   \<and> ensure_df sample_env false_text_table = Inr false_text_result
   \<and> getitem false_text_table ''purchased'' = Inr [S ''False'']
   \<and> getitem false_text_result ''purchased'' = Inr [B True]"
proof -
  have "getitem df' ''purchased'' =
        Inr (map (\<lambda>c. case c of NA \<Rightarrow> B False | B b \<Rightarrow> B b | I i \<Rightarrow> B (i \<noteq> 0)
                        | F f \<Rightarrow> B (f \<noteq> Fin 0) | S s \<Rightarrow> B (s \<noteq> [])) v)"
    if run: "ensure_df e df = Inr df'" and col: "map_of (data df) ''purchased'' = Some v"
  proof -
    obtain ys where "df' = normalized e df ys"
      using run unfolding ensure_df_Inr_iff by blast
    then have "getitem df' ''purchased'' = Inr (map coerce_purchased v)"
      using col by (simp add: getitem_normalized col_or_default_present)
    also have "map coerce_purchased v =
        map (\<lambda>c. case c of NA \<Rightarrow> B False | B b \<Rightarrow> B b | I i \<Rightarrow> B (i \<noteq> 0)
                        | F f \<Rightarrow> B (f \<noteq> Fin 0) | S s \<Rightarrow> B (s \<noteq> [])) v"
      by (rule map_cong [OF refl]) (rule coerce_purchased_by_case)
    finally show ?thesis .
  qed
  moreover have "ensure_df sample_env false_text_table = Inr false_text_result"
    by code_simp
  moreover have "getitem false_text_table ''purchased'' = Inr [S ''False'']"
    by (simp add: getitem_def false_text_table_def)
  moreover have "getitem false_text_result ''purchased'' = Inr [B True]"
    by (simp add: getitem_def false_text_result_def)
  ultimately show ?thesis by blast
qed

theorem purchased_by_truthiness_witness:
  "ensure_df sample_env truth_table = Inr truth_result
   \<and> map_of (data truth_table) ''purchased'' =
        Some [NA, B False, B True, I 0, I 2, F (Fin 0), F (Fin (1 / 2)), S [], S ''no'']
   \<and> getitem truth_result ''purchased'' =
        Inr [B False, B False, B True, B False, B True, B False, B True, B False, B True]"
proof -
  have h1: "ensure_df sample_env truth_table = Inr truth_result"
    by code_simp
  have h2: "map_of (data truth_table) ''purchased'' =
        Some [NA, B False, B True, I 0, I 2, F (Fin 0), F (Fin (1 / 2)), S [], S ''no'']"
    by (simp add: truth_table_def)
  note t = purchased_by_truthiness [of sample_env truth_table truth_result
      "[NA, B False, B True, I 0, I 2, F (Fin 0), F (Fin (1 / 2)), S [], S ''no'']"]
  note r = t [THEN conjunct1, THEN mp, THEN mp, OF h1 h2]
  have "getitem truth_result ''purchased'' =
        Inr [B False, B False, B True, B False, B True, B False, B True, B False, B True]"
    using r by simp
  with h1 h2 show ?thesis by (intro conjI)
qed

text \<open>
  C2. Normalising is idempotent: whenever \<open>ensure_df\<close> returns a table,
  running it again on that table (at any later clock) returns the same table;
  and when it raises, so does the composition, so that normalising twice
  always equals normalising once.
\<close>

theorem normalize_idempotent:
  "(ensure_df e df = Inr df' \<longrightarrow> ensure_df e' df' = Inr df')
   \<and> seq (ensure_df e df) (ensure_df e) = ensure_df e df"
proof (cases "ensure_df e df")
  case (Inl err)
  then show ?thesis by simp
next
  case (Inr d)
  then show ?thesis using ensure_df_fixed [of e df d] by auto
qed

theorem normalize_idempotent_witness:
  "ensure_df sample_env odd_dates_table = Inr odd_dates_result
   \<and> ensure_df sample_env odd_dates_result = Inr odd_dates_result"
proof -
  have h: "ensure_df sample_env odd_dates_table = Inr odd_dates_result" by code_simp
  with normalize_idempotent [of sample_env odd_dates_table odd_dates_result sample_env]
  show ?thesis by simp
qed

text \<open>
  C7, at the input where the code departs from it. The write-back goes by
  row label. After the import of a CSV whose rows carry the label 7 twice,
  the view for 2024 holds the first record only; marking it purchased at a
  cost of 9 and writing back also overwrites purchased and purchased_cost of
  the second record, the gift of 2025, which is outside the view.
\<close>

theorem edit_overwrites_row_of_same_label:
  "import_csv sample_env abc_ledger dup_csv = (dup_ledger, None)
   \<and> index dup_ledger = [7, 7]
   \<and> filter_view dup_ledger year_2024 = Inr dup_view
   \<and> rows dup_view = [row_at dup_ledger 0]
   \<and> index dup_edited = index dup_view
   \<and> write_back dup_ledger dup_edited = Inr dup_after
   \<and> row_at dup_ledger 1 =
        [S ''2025-12-25'', I 2025, S ''Bob'', S ''Xmas'', S ''pen'', F (Fin 5), B False, F (Fin 0)]
   \<and> row_at dup_after 1 =
        [S ''2025-12-25'', I 2025, S ''Bob'', S ''Xmas'', S ''pen'', F (Fin 5), B True, F (Fin 9)]"
  by code_simp

text \<open>
  C6. Import is all-or-nothing. When \<open>pd.read_csv\<close> raises on the uploaded
  bytes, the error is shown and the ledger is the one from before, cell for
  cell; the same holds when \<open>ensure_df\<close> raises on the parsed table; only
  when both return is the ledger replaced, and then by the whole normalised
  table.
\<close>

theorem import_all_or_nothing:
  "(\<forall>err. read_csv e up = Inl err \<longrightarrow> import_csv e gifts up = (gifts, Some err))
   \<and> (\<forall>df err. read_csv e up = Inr df \<and> ensure_df e df = Inl err \<longrightarrow>
          import_csv e gifts up = (gifts, Some err))
   \<and> (\<forall>df g. read_csv e up = Inr df \<and> ensure_df e df = Inr g \<longrightarrow>
          import_csv e gifts up = (g, None))"
  by (simp add: import_csv_def)

theorem import_all_or_nothing_witness:
  "read_csv sample_env ragged_csv = Inl ParserError
   \<and> import_csv sample_env abc_ledger ragged_csv = (abc_ledger, Some ParserError)"
proof -
  have h: "read_csv sample_env ragged_csv = Inl ParserError"
    by code_simp
  note t = import_all_or_nothing [of sample_env ragged_csv abc_ledger]
  note r = t [THEN conjunct1, THEN spec, THEN mp, OF h]
  show ?thesis
    using h r by (intro conjI)
qed

text \<open>
  C5, at the input where the code departs from it. The search text a.c is
  compiled as a regular expression, so its dot matches any character: the
  record of recipient abc is kept by the filter although abc does not contain
  the text a.c.
\<close>

theorem dot_matches_any_character:
  "filter_view abc_ledger dot_search = Inr abc_ledger
   \<and> getitem abc_ledger ''recipient'' = Inr [S ''abc'']
   \<and> \<not> contains (lower ''abc'') (lower (rec_text dot_search))"
  by code_simp

text \<open>
  C3, at the input where the code departs from it. The ledger with the
  recipients NA and 007 is a fixed point of \<open>ensure_df\<close>; its export read
  back by the import of \<open>main\<close> holds the empty text and 7.0 in their place,
  since the reader takes NA for a null and 007 for a number.
\<close>

theorem export_import_loses_text:
  "ensure_df sample_env na_ledger = Inr na_ledger
   \<and> download_csv sample_env na_ledger = na_ledger_csv
   \<and> import_csv sample_env abc_ledger na_ledger_csv = (na_ledger_reimported, None)
   \<and> getitem na_ledger ''recipient'' = Inr [S ''NA'', S ''007'']
   \<and> getitem na_ledger_reimported ''recipient'' = Inr [S [], S ''7.0'']"
  by code_simp

text \<open>
  C8, as amended. After \<open>ensure_df\<close> on a well-formed table, after an import
  (the reader handing back well-formed tables), after adding a gift and after
  the write-back of an edit (the editor handing back bools and floats), the
  ledger is a well-formed frame with the eight canonical columns of their
  declared types: year an integer, the amounts floats, purchased a bool, the
  rest text. budget and purchased_cost are at least 0 provided every amount
  supplied (an input cell, an amount of the draft, an edited cost) reads as at
  least 0 or does not read as a number; a negative amount is kept, not
  clamped.
\<close>

theorem ledger_invariant:
  "(wf_frame df \<and> ensure_df e df = Inr d1 \<longrightarrow>
      ledger_ok d1
      \<and> (list_all (reads_nonneg e) (supplied_amounts df) \<longrightarrow> nonneg_amounts d1))
   \<and> (ledger_ok gifts \<and> (\<forall>df. read_csv e up = Inr df \<longrightarrow> wf_frame df) \<longrightarrow>
      ledger_ok (fst (import_csv e gifts up))
      \<and> (nonneg_amounts gifts
           \<and> (\<forall>df. read_csv e up = Inr df \<longrightarrow> list_all (reads_nonneg e) (supplied_amounts df))
         \<longrightarrow> nonneg_amounts (fst (import_csv e gifts up))))
   \<and> (ledger_ok gifts \<and> add e gifts dr = Inr d2 \<longrightarrow>
      ledger_ok d2
      \<and> (nonneg_amounts gifts \<and> 0 \<le> budget dr \<and> 0 \<le> purchased_cost dr \<longrightarrow> nonneg_amounts d2))
   \<and> (ledger_ok gifts \<and> typed_edits edited \<and> write_back gifts edited = Inr d3 \<longrightarrow>
      ledger_ok d3
      \<and> (nonneg_amounts gifts \<and> list_all nonneg (present_column edited ''purchased_cost'')
         \<longrightarrow> nonneg_amounts d3))"
proof (intro conjI impI)
  assume h: "wf_frame df \<and> ensure_df e df = Inr d1"
  then show "ledger_ok d1"
    using ensure_df_invariant(1,2) [of e df d1] by (simp add: ledger_ok_def)
  assume "list_all (reads_nonneg e) (supplied_amounts df)"
  then show "nonneg_amounts d1"
    using h ensure_df_invariant(3) [of e df d1] by simp
next
  assume h: "ledger_ok gifts \<and> (\<forall>df. read_csv e up = Inr df \<longrightarrow> wf_frame df)"
  let ?g = "fst (import_csv e gifts up)"
  consider "?g = gifts" | df where "read_csv e up = Inr df" "ensure_df e df = Inr ?g"
    using import_csv_fst [of e gifts up] by blast
  note cases = this
  from cases show "ledger_ok ?g"
  proof cases
    case 1
    then show ?thesis using h by simp
  next
    case 2
    then show ?thesis
      using h ensure_df_invariant(1,2) [OF 2(2)] by (simp add: ledger_ok_def)
  qed
  assume n: "nonneg_amounts gifts
       \<and> (\<forall>df. read_csv e up = Inr df \<longrightarrow> list_all (reads_nonneg e) (supplied_amounts df))"
  from cases show "nonneg_amounts ?g"
  proof cases
    case 1
    then show ?thesis using n by simp
  next
    case 2
    then show ?thesis
      using n ensure_df_invariant(3) [OF 2(2)] by simp
  qed
next
  assume h: "ledger_ok gifts \<and> add e gifts dr = Inr d2"
  then show "ledger_ok d2"
    using add_invariant(1,2) [of e gifts dr d2] by (simp add: ledger_ok_def)
  assume "nonneg_amounts gifts \<and> 0 \<le> budget dr \<and> 0 \<le> purchased_cost dr"
  then show "nonneg_amounts d2"
    using h add_invariant(3) [of e gifts dr d2] by simp
next
  assume h: "ledger_ok gifts \<and> typed_edits edited \<and> write_back gifts edited = Inr d3"
  then show "ledger_ok d3"
    using write_back_invariant(1) [of gifts edited d3] by simp
  assume "nonneg_amounts gifts \<and> list_all nonneg (present_column edited ''purchased_cost'')"
  then show "nonneg_amounts d3"
    using h write_back_invariant(2) [of gifts edited d3] by simp
qed

theorem ledger_invariant_witness:
  "ledger_ok messy_result \<and> nonneg_amounts messy_result
   \<and> ledger_ok (fst (import_csv sample_env messy_result na_ledger_csv))
   \<and> nonneg_amounts (fst (import_csv sample_env messy_result na_ledger_csv))
   \<and> ledger_ok after_add \<and> nonneg_amounts after_add
   \<and> ledger_ok after_edit \<and> nonneg_amounts after_edit"
proof -
  note t = ledger_invariant [where e = sample_env and df = messy_table and ?d1.0 = messy_result
      and gifts = messy_result and up = na_ledger_csv and dr = bob_draft and ?d2.0 = after_add
      and edited = edited_2024 and ?d3.0 = after_edit]
  have wf: "wf_frame messy_table" by code_simp
  have run: "ensure_df sample_env messy_table = Inr messy_result" by code_simp
  have am: "list_all (reads_nonneg sample_env) (supplied_amounts messy_table)" by code_simp
  note p1 = t [THEN conjunct1, THEN mp, OF conjI [OF wf run]]
  note ok = p1 [THEN conjunct1]
  note nn = p1 [THEN conjunct2, THEN mp, OF am]
  have rd: "read_csv sample_env na_ledger_csv = Inr na_parsed" by code_simp
  have wfp: "wf_frame na_parsed" by code_simp
  have amp: "list_all (reads_nonneg sample_env) (supplied_amounts na_parsed)" by code_simp
  have r1: "\<forall>df. read_csv sample_env na_ledger_csv = Inr df \<longrightarrow> wf_frame df"
    using wfp by (simp add: rd)
  have r2: "\<forall>df. read_csv sample_env na_ledger_csv = Inr df \<longrightarrow>
              list_all (reads_nonneg sample_env) (supplied_amounts df)"
    using amp by (simp add: rd)
  note p2 = t [THEN conjunct2, THEN conjunct1, THEN mp, OF conjI [OF ok r1]]
  note ok2 = p2 [THEN conjunct1]
  note nn2 = p2 [THEN conjunct2, THEN mp, OF conjI [OF nn r2]]
  have ad: "add sample_env messy_result bob_draft = Inr after_add" by code_simp
  have dr: "0 \<le> budget bob_draft \<and> 0 \<le> purchased_cost bob_draft"
    by (simp add: bob_draft_def)
  note p3 = t [THEN conjunct2, THEN conjunct2, THEN conjunct1, THEN mp, OF conjI [OF ok ad]]
  note ok3 = p3 [THEN conjunct1]
  note nn3 = p3 [THEN conjunct2, THEN mp, OF conjI [OF nn dr]]
  have te: "typed_edits edited_2024" by code_simp
  have wb: "write_back messy_result edited_2024 = Inr after_edit" by code_simp
  have ec: "list_all nonneg (present_column edited_2024 ''purchased_cost'')" by code_simp
  note p4 = t [THEN conjunct2, THEN conjunct2, THEN conjunct2, THEN mp,
      OF conjI [OF ok conjI [OF te wb]]]
  note ok4 = p4 [THEN conjunct1]
  note nn4 = p4 [THEN conjunct2, THEN mp, OF conjI [OF nn ec]]
  show ?thesis
    using ok nn ok2 nn2 ok3 nn3 ok4 nn4 by (intro conjI)
qed

theorem negative_amounts_kept:
  "wf_frame negative_table
   \<and> ensure_df sample_env negative_table = Inr negative_result
   \<and> getitem negative_result ''budget'' = Inr [F (Fin (- 5))]
   \<and> getitem negative_result ''purchased_cost'' = Inr [F (Fin (- 2))]
   \<and> \<not> nonneg_amounts negative_result"
  by code_simp




end
